theory Spec2Isabelle
  imports Complex_Main
begin

section \<open>The fuzz-corpus generator \<^verbatim>\<open>generate_fuzz_corpus.cc\<close>\<close>

text \<open>
  The program builds one record batch from a seeded random array generator, validates
  it, and writes it as one Parquet file in row groups of \<open>kChunkSize\<close> rows. The
  functions of the source file (\<open>GetWriterProperties\<close>, \<open>ExampleBatch1\<close>,
  \<open>Batches\<close>, \<open>DoMain\<close>, \<open>Usage\<close>, \<open>Main\<close>) are embedded as they are written.
  The Arrow and Parquet library functions they call are not part of the source file:
  where the specification describes them they are modelled from it (each such
  definition says so), and the outcome of every call into the operating system is
  decided by an environment that the theorems quantify over.
\<close>

subsection \<open>Constants\<close>

text \<open>
  \<^verbatim>\<open>static constexpr int32_t kBatchSize = 1000;\<close>
  \<^verbatim>\<open>static constexpr int32_t kChunkSize = kBatchSize * 3 / 8;\<close>
  Both operands are positive and the product is far below \<open>2^31\<close>, so C++ integer
  division is \<open>div\<close>.
\<close>

definition kBatchSize :: int where
  "kBatchSize = 1000"

definition kChunkSize :: int where
  "kChunkSize = kBatchSize * 3 div 8"

subsection \<open>Errors\<close>

text \<open>
  An Arrow \<open>Status\<close> is \<open>None\<close> when OK and \<open>Some\<close> error otherwise; a
  \<open>Result<T>\<close> is \<open>error + T\<close>. The kinds are the taxonomy of the specification.
\<close>

datatype error_kind =
    ConfigurationError
  | RangeError
  | BatchValidationError
  | DirectoryError
  | IOError
  | EncodingError

datatype error = Error error_kind string

type_synonym Status = "error option"

fun kind_name :: "error_kind \<Rightarrow> string" where
  "kind_name ConfigurationError = ''ConfigurationError''"
| "kind_name RangeError = ''RangeError''"
| "kind_name BatchValidationError = ''BatchValidationError''"
| "kind_name DirectoryError = ''DirectoryError''"
| "kind_name IOError = ''IOError''"
| "kind_name EncodingError = ''EncodingError''"

text \<open>
  Modelled from the spec: \<open>Status::ToString\<close> is library code; the specification
  asks for a descriptive message, which here names the kind of the failure and carries
  its detail.
\<close>

fun ToString :: "error \<Rightarrow> string" where
  "ToString (Error k m) = kind_name k @ '': '' @ m"

subsection \<open>Arrays, schemas, batches and tables\<close>

datatype DataType = int16 | int32 | int64 | float64 | utf8 | list_type DataType

text \<open>
  A generated column carries its logical type, its length, a null bitmap (\<open>True\<close>
  marks an absent value) and its values; a list column carries offsets into a flat child
  array. The length is a field of its own, as in Arrow's array data, so that the
  structural invariants are checked and not built into the type.
\<close>

datatype Array =
    NumericArray DataType nat "bool list" "int list"
  | DoubleArray nat "bool list" "real list"
  | StringArray nat "bool list" "string list"
  | ListArray DataType nat "bool list" "int list" Array

fun type_of :: "Array \<Rightarrow> DataType" where
  "type_of (NumericArray t n nb vs) = t"
| "type_of (DoubleArray n nb vs) = float64"
| "type_of (StringArray n nb vs) = utf8"
| "type_of (ListArray t n nb offs ch) = t"

fun array_length :: "Array \<Rightarrow> nat" where
  "array_length (NumericArray t n nb vs) = n"
| "array_length (DoubleArray n nb vs) = n"
| "array_length (StringArray n nb vs) = n"
| "array_length (ListArray t n nb offs ch) = n"

fun null_bitmap :: "Array \<Rightarrow> bool list" where
  "null_bitmap (NumericArray t n nb vs) = nb"
| "null_bitmap (DoubleArray n nb vs) = nb"
| "null_bitmap (StringArray n nb vs) = nb"
| "null_bitmap (ListArray t n nb offs ch) = nb"

definition null_count :: "Array \<Rightarrow> nat" where
  "null_count a = length (filter (\<lambda>b. b) (null_bitmap a))"

type_synonym Field = "string \<times> DataType"

record Schema =
  schema_fields :: "Field list"
  schema_metadata :: "(string \<times> string) list"

record RecordBatch =
  batch_schema :: Schema
  num_rows :: nat
  columns :: "Array list"

record Table =
  table_schema :: Schema
  table_num_rows :: nat
  table_chunks :: "Array list list"

text \<open>
  Modelled from the spec: the constructors \<open>field\<close>, \<open>schema\<close>,
  \<open>key_value_metadata\<close>, \<open>Schema::WithMetadata\<close> and \<open>RecordBatch::Make\<close> are
  library code. A schema is the ordered sequence of its fields, with the metadata pairs
  attached verbatim and in order; a batch is its schema, its row count and its columns in
  field order. None of the constructors validates what it is given.
\<close>

definition field :: "string \<Rightarrow> DataType \<Rightarrow> Field" where
  "field name t = (name, t)"

definition schema :: "Field list \<Rightarrow> Schema" where
  "schema fs = \<lparr>schema_fields = fs, schema_metadata = []\<rparr>"

definition key_value_metadata :: "string list \<Rightarrow> string list \<Rightarrow> (string \<times> string) list" where
  "key_value_metadata ks vs = zip ks vs"

definition WithMetadata :: "Schema \<Rightarrow> (string \<times> string) list \<Rightarrow> Schema" where
  "WithMetadata s md = s\<lparr>schema_metadata := md\<rparr>"

definition RecordBatch_Make :: "Schema \<Rightarrow> nat \<Rightarrow> Array list \<Rightarrow> RecordBatch" where
  "RecordBatch_Make s n cols = \<lparr>batch_schema = s, num_rows = n, columns = cols\<rparr>"

subsection \<open>The random array generator\<close>

text \<open>
  \<open>random::RandomArrayGenerator\<close> is library code. Its state is the seed it was
  built from, advanced by every draw. The three primitive draws (a uniform integer in a
  closed range, a uniform real in a closed range, and a coin that comes up \<open>True\<close> with
  the given probability) are parameters: the theorems hold for every pseudo-random engine.
  Float64 values and probabilities are reals here; no claim depends on rounding.
\<close>

type_synonym rng_state = nat

record rng_ops =
  uniform_int :: "rng_state \<Rightarrow> int \<Rightarrow> int \<Rightarrow> int \<times> rng_state"
  uniform_real :: "rng_state \<Rightarrow> real \<Rightarrow> real \<Rightarrow> real \<times> rng_state"
  bernoulli :: "rng_state \<Rightarrow> real \<Rightarrow> bool \<times> rng_state"

text \<open>\<open>draw f n g\<close> draws \<open>n\<close> times in a row, threading the generator state.\<close>

fun draw :: "(rng_state \<Rightarrow> 'a \<times> rng_state) \<Rightarrow> nat \<Rightarrow> rng_state \<Rightarrow> 'a list \<times> rng_state" where
  "draw f 0 g = ([], g)"
| "draw f (Suc n) g =
     (case f g of (x, g1) \<Rightarrow> (case draw f n g1 of (xs, g2) \<Rightarrow> (x # xs, g2)))"

text \<open>
  Modelled from the spec: scalar-range generation (\<open>gen.Int16\<close>, \<open>gen.Int64\<close>,
  \<open>gen.Float64\<close>). Each value is drawn uniformly from \<open>[min, max]\<close>; each row is
  independently nulled with probability \<open>null_probability\<close>.
\<close>

definition Numeric :: "rng_ops \<Rightarrow> DataType \<Rightarrow> nat \<Rightarrow> int \<Rightarrow> int \<Rightarrow> real \<Rightarrow> rng_state \<Rightarrow> Array \<times> rng_state" where
  "Numeric ops t sz lo hi null_probability g =
     (case draw (\<lambda>s. uniform_int ops s lo hi) sz g of (vals, g1) \<Rightarrow>
      (case draw (\<lambda>s. bernoulli ops s null_probability) sz g1 of (nulls, g2) \<Rightarrow>
        (NumericArray t sz nulls vals, g2)))"

definition Int16 :: "rng_ops \<Rightarrow> nat \<Rightarrow> int \<Rightarrow> int \<Rightarrow> real \<Rightarrow> rng_state \<Rightarrow> Array \<times> rng_state" where
  "Int16 ops = Numeric ops int16"

definition Int64 :: "rng_ops \<Rightarrow> nat \<Rightarrow> int \<Rightarrow> int \<Rightarrow> real \<Rightarrow> rng_state \<Rightarrow> Array \<times> rng_state" where
  "Int64 ops = Numeric ops int64"

definition Float64 :: "rng_ops \<Rightarrow> nat \<Rightarrow> real \<Rightarrow> real \<Rightarrow> real \<Rightarrow> rng_state \<Rightarrow> Array \<times> rng_state" where
  "Float64 ops sz lo hi null_probability g =
     (case draw (\<lambda>s. uniform_real ops s lo hi) sz g of (vals, g1) \<Rightarrow>
      (case draw (\<lambda>s. bernoulli ops s null_probability) sz g1 of (nulls, g2) \<Rightarrow>
        (DoubleArray sz nulls vals, g2)))"

text \<open>
  Modelled from the spec: bounded-string generation (\<open>gen.String\<close>). The length of each
  string is drawn uniformly from \<open>[min_length, max_length]\<close>; its characters are drawn
  from the letters \<open>A\<close> to \<open>z\<close> (the specification leaves the alphabet open and no
  claim depends on it).
\<close>

definition random_string :: "rng_ops \<Rightarrow> int \<Rightarrow> int \<Rightarrow> rng_state \<Rightarrow> string \<times> rng_state" where
  "random_string ops min_length max_length g =
     (case uniform_int ops g min_length max_length of (len, g1) \<Rightarrow>
      (case draw (\<lambda>s. uniform_int ops s 65 122) (nat len) g1 of (codes, g2) \<Rightarrow>
        (map (\<lambda>c. char_of (nat c)) codes, g2)))"

definition String :: "rng_ops \<Rightarrow> nat \<Rightarrow> int \<Rightarrow> int \<Rightarrow> real \<Rightarrow> rng_state \<Rightarrow> Array \<times> rng_state" where
  "String ops sz min_length max_length null_probability g =
     (case draw (random_string ops min_length max_length) sz g of (vals, g1) \<Rightarrow>
      (case draw (\<lambda>s. bernoulli ops s null_probability) sz g1 of (nulls, g2) \<Rightarrow>
        (StringArray sz nulls vals, g2)))"

text \<open>
  Modelled from the spec: the offsets of nested-list generation (\<open>gen.Offsets\<close>):
  \<open>sz\<close> monotonically non-decreasing int32 offsets bounded by \<open>last_offset\<close>
  (the child array's length), the first of them \<open>first_offset\<close>. The draws are sorted
  and the first entry is pinned; the offsets array has no nulls.
\<close>

definition pin_first :: "int \<Rightarrow> int list \<Rightarrow> int list" where
  "pin_first first_offset xs = (case xs of [] \<Rightarrow> [] | y # ys \<Rightarrow> first_offset # ys)"

definition Offsets :: "rng_ops \<Rightarrow> nat \<Rightarrow> int \<Rightarrow> int \<Rightarrow> rng_state \<Rightarrow> Array \<times> rng_state" where
  "Offsets ops sz first_offset last_offset g =
     (case draw (\<lambda>s. uniform_int ops s first_offset last_offset) sz g of (vals, g1) \<Rightarrow>
        (NumericArray int32 sz (replicate sz False) (pin_first first_offset (sort vals)), g1))"

text \<open>
  The structural invariant of a list column: the offsets are a non-decreasing sequence
  of length \<open>length + 1\<close> that starts at 0 and whose last entry is at most the length of
  the child array.
\<close>

definition offsets_ok :: "nat \<Rightarrow> int list \<Rightarrow> nat \<Rightarrow> bool" where
  "offsets_ok n offs child_length \<longleftrightarrow>
     length offs = n + 1 \<and> sorted offs \<and> hd offs = 0 \<and> last offs \<le> int child_length"

text \<open>
  Modelled from the spec: \<open>ListArray::FromArrays\<close>, the last step of nested-list
  generation. It fails with a \<open>RangeError\<close> when the offsets cannot be the offsets of a
  list array over the child values (no offsets at all, offsets that are not int32, offsets
  that are not monotone or leave the child array). A row of the list array is null where
  its offset is.
\<close>

fun FromArrays :: "Array \<Rightarrow> Array \<Rightarrow> error + Array" where
  "FromArrays (NumericArray t n nb offs) vals =
     (if t \<noteq> int32 then Inl (Error RangeError ''list offsets must be int32'')
      else if n = 0 then Inl (Error RangeError ''list offsets must have non-zero length'')
      else if \<not> offsets_ok (n - 1) offs (array_length vals)
        then Inl (Error RangeError ''list offsets not monotone or out of bounds'')
      else Inr (ListArray (list_type (type_of vals)) (n - 1) (take (n - 1) nb) offs vals))"
| "FromArrays offsets vals = Inl (Error RangeError ''list offsets must be int32'')"

text \<open>
  Modelled from the spec: constant generation (\<open>MakeArrayFromScalar\<close>): every row is set
  to the one fixed value, with zero nulls. \<open>Int16Scalar\<close> is the only scalar the
  program builds.
\<close>

datatype Scalar = Int16Scalar int

fun MakeArrayFromScalar :: "Scalar \<Rightarrow> nat \<Rightarrow> error + Array" where
  "MakeArrayFromScalar (Int16Scalar v) n =
     Inr (NumericArray int16 n (replicate n False) (replicate n v))"

subsection \<open>Writer properties\<close>

text \<open>
  Modelled from the spec: the writer configuration holds the set of column names with
  dictionary encoding disabled; dictionary encoding is on for every other column.
  (The row-group size is passed to \<open>WriteTable\<close> on its own, as in the source.)
\<close>

record WriterProperties =
  no_dictionary_columns :: "string set"

definition builder_default :: WriterProperties where
  "builder_default = \<lparr>no_dictionary_columns = {}\<rparr>"

definition disable_dictionary :: "string \<Rightarrow> WriterProperties \<Rightarrow> WriterProperties" where
  "disable_dictionary path b = b\<lparr>no_dictionary_columns := insert path (no_dictionary_columns b)\<rparr>"

definition dictionary_enabled :: "WriterProperties \<Rightarrow> string \<Rightarrow> bool" where
  "dictionary_enabled p path \<longleftrightarrow> path \<notin> no_dictionary_columns p"

definition GetWriterProperties :: WriterProperties where
  "GetWriterProperties = disable_dictionary ''no_dict'' builder_default"

subsection \<open>The example batch\<close>

text \<open>
  \<open>static_cast<int32_t>\<close> of a 64-bit length: the value modulo \<open>2^32\<close>, read as a
  signed 32-bit integer.
\<close>

definition int32_cast :: "int \<Rightarrow> int" where
  "int32_cast x = (x + 2 ^ 31) mod 2 ^ 32 - 2 ^ 31"

definition ExampleBatch1 :: "rng_ops \<Rightarrow> error + RecordBatch" where
  "ExampleBatch1 ops =
    (case Int16 ops (nat kBatchSize) (- 10000) 10000 0.2 42 of (a, gen1) \<Rightarrow>
     case Float64 ops (nat kBatchSize) (- 10000000000) 10000000000 0.0 gen1 of (b, gen2) \<Rightarrow>
     case String ops (nat kBatchSize) 0 3 0.2 gen2 of (c, gen3) \<Rightarrow>
     case Int64 ops (nat (kBatchSize * 10)) (- 10000) 10000 0.2 gen3 of (vals, gen4) \<Rightarrow>
     case Offsets ops (nat (kBatchSize + 1)) 0 (int32_cast (int (array_length vals))) gen4
       of (offsets, gen5) \<Rightarrow>
     case FromArrays offsets vals of Inl err \<Rightarrow> Inl err | Inr d \<Rightarrow>
     case MakeArrayFromScalar (Int16Scalar 42) (nat kBatchSize) of Inl err \<Rightarrow> Inl err | Inr e \<Rightarrow>
     case String ops (nat kBatchSize) 0 30 0.2 gen5 of (no_dict, gen6) \<Rightarrow>
       Inr (RecordBatch_Make
             (WithMetadata
               (schema [field ''a'' (type_of a), field ''b'' (type_of b),
                        field ''c'' (type_of c), field ''d'' (type_of d),
                        field ''e'' (type_of e), field ''no_dict'' (type_of no_dict)])
               (key_value_metadata [''key1'', ''key2''] [''value1'', '''']))
             (nat kBatchSize) [a, b, c, d, e, no_dict]))"

definition Batches :: "rng_ops \<Rightarrow> error + RecordBatch list" where
  "Batches ops = (case ExampleBatch1 ops of Inl err \<Rightarrow> Inl err | Inr batch \<Rightarrow> Inr ([] @ [batch]))"

subsection \<open>Validation and conversion to a table\<close>

text \<open>
  Modelled from the spec: \<open>Array::ValidateFull\<close> is library code. Every column has a
  null bitmap and values of its length; a list column has offsets that satisfy the
  structural invariant over its child, which is validated recursively.
\<close>

definition invalid :: "string \<Rightarrow> Status" where
  "invalid msg = Some (Error BatchValidationError msg)"

fun ValidateFull_array :: "Array \<Rightarrow> Status" where
  "ValidateFull_array (NumericArray t n nb vs) =
     (if length nb \<noteq> n then invalid ''null bitmap length''
      else if length vs \<noteq> n then invalid ''values length'' else None)"
| "ValidateFull_array (DoubleArray n nb vs) =
     (if length nb \<noteq> n then invalid ''null bitmap length''
      else if length vs \<noteq> n then invalid ''values length'' else None)"
| "ValidateFull_array (StringArray n nb vs) =
     (if length nb \<noteq> n then invalid ''null bitmap length''
      else if length vs \<noteq> n then invalid ''values length'' else None)"
| "ValidateFull_array (ListArray t n nb offs ch) =
     (if length nb \<noteq> n then invalid ''null bitmap length''
      else if \<not> offsets_ok n offs (array_length ch) then invalid ''list offsets''
      else ValidateFull_array ch)"

text \<open>The first violation among the columns, in column order.\<close>

fun first_error :: "Status list \<Rightarrow> Status" where
  "first_error [] = None"
| "first_error (None # rest) = first_error rest"
| "first_error (Some err # rest) = Some err"

text \<open>
  Modelled from the spec: \<open>RecordBatch::ValidateFull\<close> is library code. The column
  count matches the field count, every column has the batch's row count, and every
  column is structurally valid.
\<close>

definition ValidateFull :: "RecordBatch \<Rightarrow> Status" where
  "ValidateFull batch =
     (if length (columns batch) \<noteq> length (schema_fields (batch_schema batch))
        then invalid ''column count''
      else if \<exists>c \<in> set (columns batch). array_length c \<noteq> num_rows batch
        then invalid ''column length''
      else first_error (map ValidateFull_array (columns batch)))"

text \<open>
  Modelled from the spec: \<open>Table::FromRecordBatches\<close> is library code. The table
  handed to the writer is the batches themselves under their common schema: one chunk of
  columns per batch. The source always passes exactly one batch.
\<close>

definition FromRecordBatches :: "RecordBatch list \<Rightarrow> error + Table" where
  "FromRecordBatches batches =
     (case batches of
        [] \<Rightarrow> Inl (Error BatchValidationError ''no record batch'')
      | b # rest \<Rightarrow>
          if \<exists>b' \<in> set rest. batch_schema b' \<noteq> batch_schema b
            then Inl (Error BatchValidationError ''schema mismatch'')
          else Inr \<lparr>table_schema = batch_schema b,
                    table_num_rows = sum_list (map num_rows batches),
                    table_chunks = map columns batches\<rparr>)"

subsection \<open>Writing a table\<close>

text \<open>
  Modelled from the spec: the effect of \<open>parquet::arrow::WriteTable\<close>, which is library
  code. The rows are split into row groups of at most \<open>chunk_size\<close> rows, in order; the
  file carries the table's schema and the columns with dictionary encoding bypassed.
  A row-group size is a positive integer.
\<close>

function split_rows :: "nat \<Rightarrow> nat \<Rightarrow> nat list" where
  "split_rows n chunk_size =
     (if n = 0 \<or> chunk_size = 0 then []
      else min n chunk_size # split_rows (n - min n chunk_size) chunk_size)"
  by pat_completeness auto
termination
  by (relation "measure (\<lambda>(n, chunk_size). n)") auto

record ParquetFile =
  file_schema :: Schema
  file_row_groups :: "nat list"
  file_no_dictionary :: "string list"

definition written_file :: "Table \<Rightarrow> int \<Rightarrow> WriterProperties \<Rightarrow> ParquetFile" where
  "written_file table chunk_size props =
     \<lparr>file_schema = table_schema table,
      file_row_groups = split_rows (table_num_rows table) (nat chunk_size),
      file_no_dictionary =
        filter (\<lambda>name. \<not> dictionary_enabled props name)
               (map fst (schema_fields (table_schema table)))\<rparr>"

subsection \<open>Calls, outcomes and the trace of a run\<close>

text \<open>
  Every fallible step of \<open>DoMain\<close> is recorded, in order, with its outcome. The outcome
  of a call that leaves the program (path handling, directory creation, file open, the
  encoder's write, file close) is decided by the environment, which sees the history of the run
  and the call; the outcome of batch generation, validation and table conversion is
  computed. A line written to \<open>std::cerr\<close> is a step that cannot fail.
\<close>

datatype step =
    FromString_step string
  | CreateDir_step string
  | Batches_step
  | ValidateFull_step RecordBatch
  | FromRecordBatches_step "RecordBatch list"
  | Join_step string string
  | Stderr_step string
  | Open_step string
  | WriteTable_step string Table int WriterProperties
  | Close_step string

type_synonym event = "step \<times> Status"

type_synonym environment = "event list \<Rightarrow> step \<Rightarrow> Status"

type_synonym 'a io = "event list \<Rightarrow> (error + 'a) \<times> event list"

definition return :: "'a \<Rightarrow> 'a io" where
  "return v tr = (Inr v, tr)"

text \<open>\<open>RETURN_NOT_OK\<close> and \<open>ARROW_ASSIGN_OR_RAISE\<close>: the first error ends the function.\<close>

definition bind :: "'a io \<Rightarrow> ('a \<Rightarrow> 'b io) \<Rightarrow> 'b io" where
  "bind m f tr = (case m tr of (Inl err, tr1) \<Rightarrow> (Inl err, tr1) | (Inr v, tr1) \<Rightarrow> f v tr1)"

definition ext :: "environment \<Rightarrow> step \<Rightarrow> 'a \<Rightarrow> 'a io" where
  "ext env s v tr =
     (case env tr s of
        None \<Rightarrow> (Inr v, tr @ [(s, None)])
      | Some err \<Rightarrow> (Inl err, tr @ [(s, Some err)]))"

definition computed :: "step \<Rightarrow> error + 'a \<Rightarrow> 'a io" where
  "computed s r tr =
     (case r of
        Inr v \<Rightarrow> (Inr v, tr @ [(s, None)])
      | Inl err \<Rightarrow> (Inl err, tr @ [(s, Some err)]))"

definition of_status :: "Status \<Rightarrow> error + unit" where
  "of_status st = (case st of None \<Rightarrow> Inr () | Some err \<Rightarrow> Inl err)"

definition cerr :: "string \<Rightarrow> unit io" where
  "cerr line tr = (Inr (), tr @ [(Stderr_step line, None)])"

subsection \<open>File names\<close>

text \<open>\<open>std::to_string\<close> of an \<open>int\<close>: decimal digits, with a sign when negative.\<close>

definition digit_char :: "nat \<Rightarrow> char" where
  "digit_char d = char_of (48 + d)"

fun to_string_nat :: "nat \<Rightarrow> string" where
  "to_string_nat n =
     (if n < 10 then [digit_char n] else to_string_nat (n div 10) @ [digit_char (n mod 10)])"

definition to_string :: "int \<Rightarrow> string" where
  "to_string i = (if i < 0 then CHR ''-'' # to_string_nat (nat (- i)) else to_string_nat (nat i))"

text \<open>
  The lambda \<open>sample_name\<close> captures the counter by reference and post-increments it:
  it returns the name built from the current value together with the advanced counter.
\<close>

definition sample_name :: "int \<Rightarrow> string \<times> int" where
  "sample_name sample_num = (''pq-table-'' @ to_string sample_num, sample_num + 1)"

text \<open>
  Modelled from the spec: \<open>PlatformFilename::Join\<close> is library code; the file is placed
  directly inside the directory.
\<close>

definition Join :: "string \<Rightarrow> string \<Rightarrow> string" where
  "Join dir child = dir @ ''/'' @ child"

subsection \<open>DoMain and Main\<close>

text \<open>One iteration of the loop over the batches; it returns the advanced counter.\<close>

definition write_batch :: "environment \<Rightarrow> string \<Rightarrow> WriterProperties \<Rightarrow> RecordBatch \<Rightarrow> int \<Rightarrow> int io" where
  "write_batch env dir_fn writer_properties batch sample_num =
     bind (computed (ValidateFull_step batch) (of_status (ValidateFull batch))) (\<lambda>_.
     bind (computed (FromRecordBatches_step [batch]) (FromRecordBatches [batch])) (\<lambda>table.
     case sample_name sample_num of (name, sample_num1) \<Rightarrow>
     bind (ext env (Join_step dir_fn name) (Join dir_fn name)) (\<lambda>sample_fn.
     bind (cerr sample_fn) (\<lambda>_.
     bind (ext env (Open_step sample_fn) sample_fn) (\<lambda>file.
     bind (ext env (WriteTable_step file table kChunkSize writer_properties) ()) (\<lambda>_.
     bind (ext env (Close_step file) ()) (\<lambda>_.
     return sample_num1)))))))"

fun write_batches :: "environment \<Rightarrow> string \<Rightarrow> WriterProperties \<Rightarrow> RecordBatch list \<Rightarrow> int \<Rightarrow> int io" where
  "write_batches env dir_fn writer_properties [] sample_num = return sample_num"
| "write_batches env dir_fn writer_properties (batch # rest) sample_num =
     bind (write_batch env dir_fn writer_properties batch sample_num)
          (write_batches env dir_fn writer_properties rest)"

definition DoMain :: "rng_ops \<Rightarrow> environment \<Rightarrow> string \<Rightarrow> unit io" where
  "DoMain ops env out_dir =
     bind (ext env (FromString_step out_dir) out_dir) (\<lambda>dir_fn.
     bind (ext env (CreateDir_step dir_fn) ()) (\<lambda>_.
     bind (computed Batches_step (Batches ops)) (\<lambda>batches.
     bind (write_batches env dir_fn GetWriterProperties batches 1) (\<lambda>_.
     return ()))))"

definition usage_line :: string where
  "usage_line = ''Usage: parquet-arrow-generate-fuzz-corpus '' @ ''<output directory>''"

text \<open>\<open>Usage\<close> writes the usage line and ends the process with exit code 2.\<close>

definition Usage :: "event list \<Rightarrow> int \<times> event list" where
  "Usage tr = (2, tr @ [(Stderr_step usage_line, None)])"

text \<open>
  \<open>Main\<close> returns the exit code of the process and the trace of the run. \<open>argv\<close> holds
  the program name and the arguments, and \<open>argc\<close> is its length.
\<close>

definition Main :: "rng_ops \<Rightarrow> environment \<Rightarrow> string list \<Rightarrow> int \<times> event list" where
  "Main ops env argv =
     (if int (length argv) \<noteq> 2 then Usage []
      else case DoMain ops env (argv ! 1) [] of
             (Inl st, tr) \<Rightarrow> (1, tr @ [(Stderr_step (ToString st), None)])
           | (Inr _, tr) \<Rightarrow> (0, tr))"

subsection \<open>What a trace shows\<close>

fun open_of :: "event \<Rightarrow> string list" where
  "open_of (Open_step path, st) = [path]"
| "open_of other = []"

fun write_of :: "event \<Rightarrow> (string \<times> Table \<times> int \<times> WriterProperties) list" where
  "write_of (WriteTable_step path table chunk_size props, st) = [(path, table, chunk_size, props)]"
| "write_of other = []"

fun name_of :: "event \<Rightarrow> string list" where
  "name_of (Join_step dir child, st) = [child]"
| "name_of other = []"

fun file_of :: "event \<Rightarrow> (string \<times> ParquetFile) list" where
  "file_of (WriteTable_step path table chunk_size props, None) =
     [(path, written_file table chunk_size props)]"
| "file_of other = []"

fun fs_effect_of :: "event \<Rightarrow> step list" where
  "fs_effect_of (CreateDir_step dir, st) = [CreateDir_step dir]"
| "fs_effect_of (Open_step path, st) = [Open_step path]"
| "fs_effect_of (WriteTable_step path table chunk_size props, st) =
     [WriteTable_step path table chunk_size props]"
| "fs_effect_of (Close_step path, st) = [Close_step path]"
| "fs_effect_of other = []"

text \<open>The files a run opened, in order.\<close>

definition opened :: "event list \<Rightarrow> string list" where
  "opened tr = concat (map open_of tr)"

text \<open>The tables a run handed to the writer, in order, with their destination.\<close>

definition handed_to_writer :: "event list \<Rightarrow> (string \<times> Table \<times> int \<times> WriterProperties) list" where
  "handed_to_writer tr = concat (map write_of tr)"

text \<open>The sample names a run assigned, in order.\<close>

definition assigned_names :: "event list \<Rightarrow> string list" where
  "assigned_names tr = concat (map name_of tr)"

text \<open>The files a run wrote successfully, in order, with their contents.\<close>

definition files_written :: "event list \<Rightarrow> (string \<times> ParquetFile) list" where
  "files_written tr = concat (map file_of tr)"

text \<open>The calls of a run that touch the file system, in order.\<close>

definition fs_effects :: "event list \<Rightarrow> step list" where
  "fs_effects tr = concat (map fs_effect_of tr)"

section \<open>Notions used in the properties\<close>

subsection \<open>The example batch and its table\<close>

text \<open>
  The contract of the uniform integer draw: a value drawn from a non-empty closed range
  lies in that range.
\<close>

definition in_range :: "rng_ops \<Rightarrow> bool" where
  "in_range ops \<longleftrightarrow> (\<forall>s lo hi. lo \<le> hi \<longrightarrow>
      lo \<le> fst (uniform_int ops s lo hi) \<and> fst (uniform_int ops s lo hi) \<le> hi)"

text \<open>The schema that \<open>ExampleBatch1\<close> builds: six fields and two metadata entries.\<close>

definition example_schema :: Schema where
  "example_schema =
     \<lparr>schema_fields = [(''a'', int16), (''b'', float64), (''c'', utf8),
                        (''d'', list_type int64), (''e'', int16), (''no_dict'', utf8)],
      schema_metadata = [(''key1'', ''value1''), (''key2'', '''')]\<rparr>"

text \<open>The column of a batch that stands at the position of the field of the given name.\<close>

definition column_named :: "RecordBatch \<Rightarrow> string \<Rightarrow> Array option" where
  "column_named batch name =
     map_of (zip (map fst (schema_fields (batch_schema batch))) (columns batch)) name"

text \<open>The table that \<open>FromRecordBatches\<close> builds from a single batch.\<close>

definition table_of :: "RecordBatch \<Rightarrow> Table" where
  "table_of batch =
     \<lparr>table_schema = batch_schema batch, table_num_rows = num_rows batch,
      table_chunks = [columns batch]\<rparr>"

text \<open>The batches that \<open>Batches\<close> generated, none if generation failed.\<close>

definition generated :: "rng_ops \<Rightarrow> RecordBatch list" where
  "generated ops = (case Batches ops of Inl err \<Rightarrow> [] | Inr batches \<Rightarrow> batches)"

subsection \<open>The steps of a run\<close>

text \<open>
  The steps that one loop iteration takes when nothing fails, for the batch and the
  counter value it starts with; the steps of the whole loop; and the steps of \<open>DoMain\<close>
  for the batches it generated.
\<close>

definition batch_steps :: "string \<Rightarrow> WriterProperties \<Rightarrow> RecordBatch \<Rightarrow> int \<Rightarrow> step list" where
  "batch_steps dir_fn props batch sample_num =
     [ValidateFull_step batch,
      FromRecordBatches_step [batch],
      Join_step dir_fn (''pq-table-'' @ to_string sample_num),
      Stderr_step (Join dir_fn (''pq-table-'' @ to_string sample_num)),
      Open_step (Join dir_fn (''pq-table-'' @ to_string sample_num)),
      WriteTable_step (Join dir_fn (''pq-table-'' @ to_string sample_num)) (table_of batch)
        kChunkSize props,
      Close_step (Join dir_fn (''pq-table-'' @ to_string sample_num))]"

fun loop_steps :: "string \<Rightarrow> WriterProperties \<Rightarrow> RecordBatch list \<Rightarrow> int \<Rightarrow> step list" where
  "loop_steps dir_fn props [] sample_num = []"
| "loop_steps dir_fn props (batch # rest) sample_num =
     batch_steps dir_fn props batch sample_num @ loop_steps dir_fn props rest (sample_num + 1)"

definition main_steps :: "string \<Rightarrow> RecordBatch list \<Rightarrow> step list" where
  "main_steps out_dir batches =
     [FromString_step out_dir, CreateDir_step out_dir, Batches_step]
     @ loop_steps out_dir GetWriterProperties batches 1"

text \<open>
  What the loop hands to the writer when nothing fails: for each batch in order, the
  path built from the counter, the table of the batch, the chunk size and the writer
  properties.
\<close>

fun loop_writes :: "string \<Rightarrow> WriterProperties \<Rightarrow> RecordBatch list \<Rightarrow> int
    \<Rightarrow> (string \<times> Table \<times> int \<times> WriterProperties) list" where
  "loop_writes dir_fn props [] sample_num = []"
| "loop_writes dir_fn props (batch # rest) sample_num =
     (Join dir_fn (''pq-table-'' @ to_string sample_num), table_of batch, kChunkSize, props)
     # loop_writes dir_fn props rest (sample_num + 1)"

text \<open>
  A run of a list of steps that stops at the first failure: either every step was taken
  and succeeded, or the steps before some step succeeded, that step failed, and nothing
  was done after it. \<open>st\<close> is the status the run ends with.
\<close>

definition succeeded :: "step \<Rightarrow> event" where
  "succeeded s = (s, None)"

definition stopped_run :: "step list \<Rightarrow> event list \<Rightarrow> Status \<Rightarrow> bool" where
  "stopped_run steps tr st \<longleftrightarrow>
     (case st of
        None \<Rightarrow> tr = map succeeded steps
      | Some err \<Rightarrow>
          0 < length tr \<and> length tr \<le> length steps
          \<and> tr = map succeeded (take (length tr - 1) steps)
                 @ [(steps ! (length tr - 1), Some err)])"

text \<open>The status of a result.\<close>

definition status_of :: "error + 'a \<Rightarrow> Status" where
  "status_of r = (case r of Inl err \<Rightarrow> Some err | Inr v \<Rightarrow> None)"

subsection \<open>The validation gate\<close>

text \<open>
  The validation gate, read off a trace: every table handed to the writer is the table
  of the batch whose validation succeeded last before it, with no other validation and
  no other write in between. \<open>v\<close> is the batch validated last, if it is still unwritten.
\<close>

fun gate_ok :: "RecordBatch option \<Rightarrow> event list \<Rightarrow> bool" where
  "gate_ok v [] = True"
| "gate_ok v ((ValidateFull_step batch, st) # rest) =
     gate_ok (if st = None then Some batch else None) rest"
| "gate_ok v ((WriteTable_step path table chunk_size props, st) # rest) =
     (case v of
        None \<Rightarrow> False
      | Some batch \<Rightarrow> table = table_of batch \<and> ValidateFull batch = None \<and> gate_ok None rest)"
| "gate_ok v (other # rest) = gate_ok v rest"

text \<open>
  The outcome recorded for a validation step is the computed one: validation is not a
  call whose outcome the environment decides.
\<close>

definition faithful :: "event list \<Rightarrow> bool" where
  "faithful tr \<longleftrightarrow> (\<forall>batch st. (ValidateFull_step batch, st) \<in> set tr \<longrightarrow> st = ValidateFull batch)"

text \<open>
  \<open>performs m steps R\<close>: from every trace, the computation \<open>m\<close> extends the trace by a
  run of \<open>steps\<close> that stops at the first failure, and a value it returns satisfies
  \<open>R\<close>.
\<close>

definition performs :: "'a io \<Rightarrow> step list \<Rightarrow> ('a \<Rightarrow> bool) \<Rightarrow> bool" where
  "performs m steps R \<longleftrightarrow>
     (\<forall>tr r tr1. m tr = (r, tr1) \<longrightarrow>
        (\<exists>new. tr1 = tr @ new \<and> stopped_run steps new (status_of r) \<and> faithful new)
        \<and> (\<forall>v. r = Inr v \<longrightarrow> R v))"

subsection \<open>Decimal numerals read back\<close>

text \<open>Reading a decimal numeral back: the inverse of \<open>to_string_nat\<close>.\<close>

definition digit_value :: "char \<Rightarrow> nat" where
  "digit_value c = of_char c - 48"

definition of_digits :: "string \<Rightarrow> nat" where
  "of_digits cs = foldl (\<lambda>acc c. 10 * acc + digit_value c) 0 cs"

subsection \<open>Draws from a seed\<close>

text \<open>
  The generator states that a run can reach from a seed: the seed itself, and the state
  after any draw made in a state already reached.
\<close>

inductive_set states_from :: "rng_ops \<Rightarrow> rng_state \<Rightarrow> rng_state set"
  for ops :: rng_ops and seed :: rng_state where
  start: "seed \<in> states_from ops seed"
| after_int: "s \<in> states_from ops seed \<Longrightarrow> snd (uniform_int ops s lo hi) \<in> states_from ops seed"
| after_real: "s \<in> states_from ops seed \<Longrightarrow> snd (uniform_real ops s lo hi) \<in> states_from ops seed"
| after_coin: "s \<in> states_from ops seed \<Longrightarrow> snd (bernoulli ops s p) \<in> states_from ops seed"

text \<open>
  Two engines (the engine as it behaves in one run and in another) make the same draws
  from a seed when they agree in every state reachable from that seed. In the states that
  the seed does not lead to they may differ in any way.
\<close>

definition same_draws :: "rng_ops \<Rightarrow> rng_ops \<Rightarrow> rng_state \<Rightarrow> bool" where
  "same_draws ops1 ops2 seed \<longleftrightarrow>
     (\<forall>s \<in> states_from ops1 seed.
        (\<forall>lo hi. uniform_int ops1 s lo hi = uniform_int ops2 s lo hi)
        \<and> (\<forall>lo hi. uniform_real ops1 s lo hi = uniform_real ops2 s lo hi)
        \<and> (\<forall>p. bernoulli ops1 s p = bernoulli ops2 s p))"

subsection \<open>Engines, environments and batches to run the program on\<close>

text \<open>
  A small linear congruential engine and an environment in which every call succeeds,
  to run the program on.
\<close>

definition lcg_next :: "rng_state \<Rightarrow> rng_state" where
  "lcg_next s = (s * 1103515245 + 12345) mod 2147483648"

definition lcg_ops :: rng_ops where
  "lcg_ops =
     \<lparr>uniform_int = (\<lambda>s lo hi. (lo + int (s mod nat (hi - lo + 1)), lcg_next s)),
      uniform_real = (\<lambda>s lo hi. (lo + (hi - lo) * real (s mod 1000) / 1000, lcg_next s)),
      bernoulli = (\<lambda>s p. (real (s mod 1000) < p * 1000, lcg_next s))\<rparr>"

definition env_ok :: environment where
  "env_ok tr s = None"

text \<open>An environment in which exactly the calls of one kind fail, with a given error.\<close>

definition env_failing :: "(step \<Rightarrow> bool) \<Rightarrow> error \<Rightarrow> environment" where
  "env_failing bad err tr s = (if bad s then Some err else None)"


fun is_WriteTable :: "step \<Rightarrow> bool" where
  "is_WriteTable (WriteTable_step path table chunk_size props) = True"
| "is_WriteTable other = False"

text \<open>An environment in which closing the second output file fails.\<close>

definition close_fails :: environment where
  "close_fails =
     env_failing (\<lambda>s. s = Close_step ''out/pq-table-2'') (Error IOError ''close failed'')"

text \<open>An environment in which the encoder rejects every write.\<close>

definition write_fails :: environment where
  "write_fails = env_failing is_WriteTable (Error EncodingError ''unsupported value'')"

text \<open>Two small batches to run the loop on: a valid one, and one with a short column.\<close>

definition small_batch :: RecordBatch where
  "small_batch =
     \<lparr>batch_schema = \<lparr>schema_fields = [(''x'', int16)], schema_metadata = []\<rparr>,
      num_rows = 2,
      columns = [NumericArray int16 2 [False, True] [7, 0]]\<rparr>"

definition broken_batch :: RecordBatch where
  "broken_batch =
     \<lparr>batch_schema = \<lparr>schema_fields = [(''x'', int16)], schema_metadata = []\<rparr>,
      num_rows = 2,
      columns = [NumericArray int16 2 [False, True] [7]]\<rparr>"

text \<open>
  An engine that draws as \<open>lcg_ops\<close> does in the states below \<open>2^31\<close> and differently
  in all other states.
\<close>

definition lcg_ops_elsewhere :: rng_ops where
  "lcg_ops_elsewhere =
     \<lparr>uniform_int = (\<lambda>s lo hi. if s < 2147483648 then uniform_int lcg_ops s lo hi else (hi, s)),
      uniform_real = (\<lambda>s lo hi. if s < 2147483648 then uniform_real lcg_ops s lo hi else (hi, s)),
      bernoulli = (\<lambda>s p. if s < 2147483648 then bernoulli lcg_ops s p else (True, s))\<rparr>"

section \<open>Properties\<close>

subsection \<open>The generated columns\<close>

lemma draw_length: "draw f n g = (xs, g1) \<Longrightarrow> length xs = n"
  by (induction n arbitrary: g xs g1) (auto split: prod.splits)

lemma draw_all:
  "draw f n g = (xs, g1) \<Longrightarrow> (\<And>s. P (fst (f s))) \<Longrightarrow> \<forall>x \<in> set xs. P x"
proof (induction n arbitrary: g xs g1)
  case 0
  then show ?case by simp
next
  case (Suc n)
  obtain y g2 where fg: "f g = (y, g2)" by (cases "f g")
  obtain ys g3 where rest: "draw f n g2 = (ys, g3)" by (cases "draw f n g2")
  from Suc.prems(1) fg rest have xs: "xs = y # ys" by simp
  have "P y" using Suc.prems(2) [of g] fg by simp
  moreover have "\<forall>z \<in> set ys. P z"
    using Suc.IH [OF rest Suc.prems(2)] .
  ultimately show ?case using xs by simp
qed

lemma Numeric_shape:
  "Numeric ops t sz lo hi p g = (a, g1) \<Longrightarrow>
     \<exists>nb vs. a = NumericArray t sz nb vs \<and> length nb = sz \<and> length vs = sz"
  by (auto simp: Numeric_def split: prod.splits dest: draw_length)

lemma Float64_shape:
  "Float64 ops sz lo hi p g = (a, g1) \<Longrightarrow>
     \<exists>nb vs. a = DoubleArray sz nb vs \<and> length nb = sz \<and> length vs = sz"
  by (auto simp: Float64_def split: prod.splits dest: draw_length)

lemma String_shape:
  "String ops sz lo hi p g = (a, g1) \<Longrightarrow>
     \<exists>nb vs. a = StringArray sz nb vs \<and> length nb = sz \<and> length vs = sz"
  by (auto simp: String_def split: prod.splits dest: draw_length)

lemma length_pin_first: "length (pin_first f xs) = length xs"
  by (cases xs) (simp_all add: pin_first_def)

lemma hd_pin_first: "xs \<noteq> [] \<Longrightarrow> hd (pin_first f xs) = f"
  by (cases xs) (simp_all add: pin_first_def)

lemma sorted_pin_first:
  "sorted xs \<Longrightarrow> \<forall>x \<in> set xs. f \<le> x \<Longrightarrow> sorted (pin_first f xs)"
  by (cases xs) (simp_all add: pin_first_def)

lemma last_pin_first:
  "\<forall>x \<in> set xs. x \<le> hi \<Longrightarrow> f \<le> hi \<Longrightarrow> xs \<noteq> [] \<Longrightarrow> last (pin_first f xs) \<le> hi"
  by (cases xs) (auto simp: pin_first_def)

lemma Offsets_bitmap:
  "Offsets ops sz lo hi g = (NumericArray t k nb offs, g1) \<Longrightarrow> nb = replicate sz False \<and> k = sz"
  by (auto simp: Offsets_def split: prod.splits)

lemma FromArrays_Inr:
  "FromArrays offsets vals = Inr d \<Longrightarrow>
     \<exists>n nb offs. offsets = NumericArray int32 (Suc n) nb offs \<and> offsets_ok n offs (array_length vals)
       \<and> d = ListArray (list_type (type_of vals)) n (take n nb) offs vals"
  by (cases offsets) (auto split: if_splits simp: gr0_conv_Suc)

lemma Offsets_ok:
  assumes "in_range ops" and "Offsets ops (Suc n) 0 (int m) g = (a, g1)"
  shows "\<exists>offs. a = NumericArray int32 (Suc n) (replicate (Suc n) False) offs \<and> offsets_ok n offs m"
proof -
  obtain vals where d: "draw (\<lambda>s. uniform_int ops s 0 (int m)) (Suc n) g = (vals, g1)"
    and a: "a = NumericArray int32 (Suc n) (replicate (Suc n) False) (pin_first 0 (sort vals))"
    using assms(2) by (auto simp: Offsets_def split: prod.splits)
  have len: "length vals = Suc n" using d by (rule draw_length)
  have lo: "0 \<le> x" if "x \<in> set vals" for x
    using draw_all [OF d, of "\<lambda>x. 0 \<le> x"] assms(1) that by (auto simp: in_range_def)
  have hi: "x \<le> int m" if "x \<in> set vals" for x
    using draw_all [OF d, of "\<lambda>x. x \<le> int m"] assms(1) that by (auto simp: in_range_def)
  have ne: "sort vals \<noteq> []" using len by (metis length_sort list.size(3) nat.simps(3))
  have "offsets_ok n (pin_first 0 (sort vals)) m"
    unfolding offsets_ok_def
    using len lo hi ne
    by (simp add: length_pin_first hd_pin_first sorted_pin_first last_pin_first)
  with a show ?thesis by blast
qed

lemma ExampleBatch1_Inr:
  assumes ok: "ExampleBatch1 ops = Inr batch"
  shows "\<exists>anb avs bnb bvs cnb cvs offs chnb chvs nnb nvs.
     batch = \<lparr>batch_schema = example_schema, num_rows = nat kBatchSize,
              columns = [NumericArray int16 (nat kBatchSize) anb avs,
                         DoubleArray (nat kBatchSize) bnb bvs,
                         StringArray (nat kBatchSize) cnb cvs,
                         ListArray (list_type int64) (nat kBatchSize)
                           (replicate (nat kBatchSize) False) offs
                           (NumericArray int64 (nat (kBatchSize * 10)) chnb chvs),
                         NumericArray int16 (nat kBatchSize)
                           (replicate (nat kBatchSize) False) (replicate (nat kBatchSize) 42),
                         StringArray (nat kBatchSize) nnb nvs]\<rparr>
     \<and> length anb = nat kBatchSize \<and> length avs = nat kBatchSize
     \<and> length bnb = nat kBatchSize \<and> length bvs = nat kBatchSize
     \<and> length cnb = nat kBatchSize \<and> length cvs = nat kBatchSize
     \<and> length chnb = nat (kBatchSize * 10) \<and> length chvs = nat (kBatchSize * 10)
     \<and> length nnb = nat kBatchSize \<and> length nvs = nat kBatchSize
     \<and> offsets_ok (nat kBatchSize) offs (nat (kBatchSize * 10))"
proof -
  obtain a g1 where a: "Int16 ops (nat kBatchSize) (- 10000) 10000 0.2 42 = (a, g1)"
    by (cases "Int16 ops (nat kBatchSize) (- 10000) 10000 0.2 42")
  obtain b g2 where b: "Float64 ops (nat kBatchSize) (- 10000000000) 10000000000 0.0 g1 = (b, g2)"
    by (cases "Float64 ops (nat kBatchSize) (- 10000000000) 10000000000 0.0 g1")
  obtain c g3 where c: "String ops (nat kBatchSize) 0 3 0.2 g2 = (c, g3)"
    by (cases "String ops (nat kBatchSize) 0 3 0.2 g2")
  obtain vals g4 where v: "Int64 ops (nat (kBatchSize * 10)) (- 10000) 10000 0.2 g3 = (vals, g4)"
    by (cases "Int64 ops (nat (kBatchSize * 10)) (- 10000) 10000 0.2 g3")
  obtain offsets g5 where
    off: "Offsets ops (nat (kBatchSize + 1)) 0 (int32_cast (int (array_length vals))) g4 = (offsets, g5)"
    by (cases "Offsets ops (nat (kBatchSize + 1)) 0 (int32_cast (int (array_length vals))) g4")
  obtain no_dict g6 where nd: "String ops (nat kBatchSize) 0 30 0.2 g5 = (no_dict, g6)"
    by (cases "String ops (nat kBatchSize) 0 30 0.2 g5")
  obtain d where d: "FromArrays offsets vals = Inr d"
    using ok a b c v off by (cases "FromArrays offsets vals") (simp_all add: ExampleBatch1_def)
  have batch: "batch = RecordBatch_Make
             (WithMetadata
               (schema [field ''a'' (type_of a), field ''b'' (type_of b),
                        field ''c'' (type_of c), field ''d'' (type_of d),
                        field ''e'' (type_of (NumericArray int16 (nat kBatchSize)
                           (replicate (nat kBatchSize) False) (replicate (nat kBatchSize) 42))),
                        field ''no_dict'' (type_of no_dict)])
               (key_value_metadata [''key1'', ''key2''] [''value1'', '''']))
             (nat kBatchSize) [a, b, c, d, NumericArray int16 (nat kBatchSize)
                           (replicate (nat kBatchSize) False) (replicate (nat kBatchSize) 42), no_dict]"
    using ok a b c v off d nd by (simp add: ExampleBatch1_def)
  obtain anb avs where a': "a = NumericArray int16 (nat kBatchSize) anb avs"
      "length anb = nat kBatchSize" "length avs = nat kBatchSize"
    using Numeric_shape [OF a [unfolded Int16_def]] by blast
  obtain bnb bvs where b': "b = DoubleArray (nat kBatchSize) bnb bvs"
      "length bnb = nat kBatchSize" "length bvs = nat kBatchSize"
    using Float64_shape [OF b] by blast
  obtain cnb cvs where c': "c = StringArray (nat kBatchSize) cnb cvs"
      "length cnb = nat kBatchSize" "length cvs = nat kBatchSize"
    using String_shape [OF c] by blast
  obtain chnb chvs where v': "vals = NumericArray int64 (nat (kBatchSize * 10)) chnb chvs"
      "length chnb = nat (kBatchSize * 10)" "length chvs = nat (kBatchSize * 10)"
    using Numeric_shape [OF v [unfolded Int64_def]] by blast
  obtain nnb nvs where nd': "no_dict = StringArray (nat kBatchSize) nnb nvs"
      "length nnb = nat kBatchSize" "length nvs = nat kBatchSize"
    using String_shape [OF nd] by blast
  obtain n nb offs where o': "offsets = NumericArray int32 (Suc n) nb offs"
      "offsets_ok n offs (array_length vals)"
      "d = ListArray (list_type (type_of vals)) n (take n nb) offs vals"
    using FromArrays_Inr [OF d] by blast
  have "Suc n = nat (kBatchSize + 1)"
    using Offsets_bitmap [OF off [unfolded o'(1)]] by simp
  then have n: "n = nat kBatchSize" by (simp add: kBatchSize_def)
  have "nb = replicate (Suc n) False"
    using Offsets_bitmap [OF off [unfolded o'(1)]] by simp
  then have "take n nb = replicate (min n (Suc n)) False"
    by (simp only: take_replicate)
  then have nb: "take n nb = replicate n False" by simp
  have d': "d = ListArray (list_type int64) (nat kBatchSize) (replicate (nat kBatchSize) False)
      offs vals"
    using o'(3) nb v'(1) unfolding n by simp
  have ok': "offsets_ok (nat kBatchSize) offs (nat (kBatchSize * 10))"
    using o'(2) v'(1) unfolding n by simp
  show ?thesis
    using batch a' b' c' v' nd' d' ok'
    by (simp add: RecordBatch_Make_def WithMetadata_def schema_def field_def
        key_value_metadata_def example_schema_def)
qed


lemma in_range_lcg_ops: "in_range lcg_ops"
proof -
  have "lo + int (s mod nat (hi - lo + 1)) \<le> hi" if "lo \<le> hi" for s :: nat and lo hi :: int
  proof -
    have "0 < nat (hi - lo + 1)" using that by simp
    then have "s mod nat (hi - lo + 1) < nat (hi - lo + 1)" by (rule mod_less_divisor)
    then show ?thesis using that by linarith
  qed
  then show ?thesis by (simp add: in_range_def lcg_ops_def)
qed

lemma ExampleBatch1_succeeds:
  assumes "in_range ops"
  shows "\<exists>batch. ExampleBatch1 ops = Inr batch"
proof -
  obtain a g1 where a: "Int16 ops (nat kBatchSize) (- 10000) 10000 0.2 42 = (a, g1)"
    by (cases "Int16 ops (nat kBatchSize) (- 10000) 10000 0.2 42")
  obtain b g2 where b: "Float64 ops (nat kBatchSize) (- 10000000000) 10000000000 0.0 g1 = (b, g2)"
    by (cases "Float64 ops (nat kBatchSize) (- 10000000000) 10000000000 0.0 g1")
  obtain c g3 where c: "String ops (nat kBatchSize) 0 3 0.2 g2 = (c, g3)"
    by (cases "String ops (nat kBatchSize) 0 3 0.2 g2")
  obtain vals g4 where v: "Int64 ops (nat (kBatchSize * 10)) (- 10000) 10000 0.2 g3 = (vals, g4)"
    by (cases "Int64 ops (nat (kBatchSize * 10)) (- 10000) 10000 0.2 g3")
  obtain offsets g5 where
    off: "Offsets ops (nat (kBatchSize + 1)) 0 (int32_cast (int (array_length vals))) g4 = (offsets, g5)"
    by (cases "Offsets ops (nat (kBatchSize + 1)) 0 (int32_cast (int (array_length vals))) g4")
  obtain no_dict g6 where nd: "String ops (nat kBatchSize) 0 30 0.2 g5 = (no_dict, g6)"
    by (cases "String ops (nat kBatchSize) 0 30 0.2 g5")
  have len: "array_length vals = 10000"
    using Numeric_shape [OF v [unfolded Int64_def]] by (auto simp: kBatchSize_def)
  have cast: "int32_cast (int (array_length vals)) = int 10000"
    unfolding len by (simp add: int32_cast_def)
  have "nat (kBatchSize + 1) = Suc 1000" by (simp add: kBatchSize_def)
  with off cast have "Offsets ops (Suc 1000) 0 (int 10000) g4 = (offsets, g5)" by simp
  from Offsets_ok [OF assms this] obtain offs where
    o: "offsets = NumericArray int32 (Suc 1000) (replicate (Suc 1000) False) offs"
       "offsets_ok 1000 offs 10000" by blast
  have "\<exists>d. FromArrays offsets vals = Inr d"
    using o len by simp
  then obtain d where d: "FromArrays offsets vals = Inr d" ..
  show ?thesis
    using a b c v off d nd by (simp add: ExampleBatch1_def)
qed

lemma column_named_example:
  assumes "batch_schema batch = example_schema" and "columns batch = [a, b, c, d, e, nd]"
  shows "column_named batch ''a'' = Some a" "column_named batch ''b'' = Some b"
        "column_named batch ''c'' = Some c" "column_named batch ''d'' = Some d"
        "column_named batch ''e'' = Some e" "column_named batch ''no_dict'' = Some nd"
  using assms by (simp_all add: column_named_def example_schema_def)

lemma ExampleBatch1_sizes:
  assumes "ExampleBatch1 ops = Inr batch"
  shows "num_rows batch = 1000"
    and "\<exists>offs chnb chvs.
           column_named batch ''d'' =
             Some (ListArray (list_type int64) 1000 (replicate 1000 False) offs
                    (NumericArray int64 10000 chnb chvs))
           \<and> length chnb = 10000 \<and> length chvs = 10000 \<and> offsets_ok 1000 offs 10000"
    and "column_named batch ''e'' =
           Some (NumericArray int16 1000 (replicate 1000 False) (replicate 1000 42))"
proof -
  from ExampleBatch1_Inr [OF assms] obtain anb avs bnb bvs cnb cvs offs chnb chvs nnb nvs where
    batch: "batch = \<lparr>batch_schema = example_schema, num_rows = nat kBatchSize,
              columns = [NumericArray int16 (nat kBatchSize) anb avs,
                         DoubleArray (nat kBatchSize) bnb bvs,
                         StringArray (nat kBatchSize) cnb cvs,
                         ListArray (list_type int64) (nat kBatchSize)
                           (replicate (nat kBatchSize) False) offs
                           (NumericArray int64 (nat (kBatchSize * 10)) chnb chvs),
                         NumericArray int16 (nat kBatchSize)
                           (replicate (nat kBatchSize) False) (replicate (nat kBatchSize) 42),
                         StringArray (nat kBatchSize) nnb nvs]\<rparr>"
    and len: "length chnb = nat (kBatchSize * 10)" "length chvs = nat (kBatchSize * 10)"
    and offs: "offsets_ok (nat kBatchSize) offs (nat (kBatchSize * 10))"
    by blast
  have k: "nat kBatchSize = 1000" "nat (kBatchSize * 10) = 10000" by (simp_all add: kBatchSize_def)
  show "num_rows batch = 1000" by (simp add: batch k)
  have "column_named batch ''d'' = Some (ListArray (list_type int64) (nat kBatchSize)
                           (replicate (nat kBatchSize) False) offs
                           (NumericArray int64 (nat (kBatchSize * 10)) chnb chvs))"
    by (rule column_named_example(4)) (simp_all add: batch)
  then have "column_named batch ''d'' =
             Some (ListArray (list_type int64) 1000 (replicate 1000 False) offs
                    (NumericArray int64 10000 chnb chvs))
           \<and> length chnb = 10000 \<and> length chvs = 10000 \<and> offsets_ok 1000 offs 10000"
    using len offs unfolding k by simp
  then show "\<exists>offs chnb chvs.
           column_named batch ''d'' =
             Some (ListArray (list_type int64) 1000 (replicate 1000 False) offs
                    (NumericArray int64 10000 chnb chvs))
           \<and> length chnb = 10000 \<and> length chvs = 10000 \<and> offsets_ok 1000 offs 10000"
    by (intro exI)
  have "column_named batch ''e'' = Some (NumericArray int16 (nat kBatchSize)
                           (replicate (nat kBatchSize) False) (replicate (nat kBatchSize) 42))"
    by (rule column_named_example(5)) (simp_all add: batch)
  then show "column_named batch ''e'' =
           Some (NumericArray int16 1000 (replicate 1000 False) (replicate 1000 42))"
    unfolding k .
qed

text \<open>
  C4. The nested-list column \<open>d\<close> of the example batch. The batch has 1000 rows; the
  flat child array of the column has exactly 10000 values, 10 times the row count; the
  offsets array has 1001 entries, the row count + 1, is non-decreasing, starts at 0, and
  its last entry is at most 10000, the length of the child array. Generation succeeds for
  every engine whose integer draws stay in their range.
\<close>

theorem nested_list_column:
  "(in_range ops \<longrightarrow> (\<exists>batch. ExampleBatch1 ops = Inr batch)) \<and>
   (\<forall>batch. ExampleBatch1 ops = Inr batch \<longrightarrow>
      num_rows batch = 1000 \<and>
      (\<exists>nb offs cnb cvs.
         column_named batch ''d'' =
           Some (ListArray (list_type int64) 1000 nb offs (NumericArray int64 10000 cnb cvs))
         \<and> 10000 = 10 * num_rows batch \<and> length cvs = 10000 \<and> length cnb = 10000
         \<and> length nb = 1000
         \<and> length offs = 1001 \<and> length offs = num_rows batch + 1
         \<and> sorted offs \<and> hd offs = 0 \<and> last offs \<le> 10000))"
proof (intro conjI allI impI)
  assume "in_range ops"
  then show "\<exists>batch. ExampleBatch1 ops = Inr batch" by (rule ExampleBatch1_succeeds)
next
  fix batch
  assume ok: "ExampleBatch1 ops = Inr batch"
  show "num_rows batch = 1000" using ok by (rule ExampleBatch1_sizes(1))
next
  fix batch
  assume ok: "ExampleBatch1 ops = Inr batch"
  have rows: "num_rows batch = 1000" using ok by (rule ExampleBatch1_sizes(1))
  from ExampleBatch1_sizes(2) [OF ok] obtain offs chnb chvs where
    d: "column_named batch ''d'' =
             Some (ListArray (list_type int64) 1000 (replicate 1000 False) offs
                    (NumericArray int64 10000 chnb chvs))"
    and len: "length chnb = 10000" "length chvs = 10000"
    and offs: "offsets_ok 1000 offs 10000"
    by (elim exE conjE)
  from offs have o: "length offs = 1001" "sorted offs" "hd offs = 0" "last offs \<le> 10000"
    by (simp_all add: offsets_ok_def)
  have "column_named batch ''d'' =
           Some (ListArray (list_type int64) 1000 (replicate 1000 False) offs
                  (NumericArray int64 10000 chnb chvs))
         \<and> 10000 = 10 * num_rows batch \<and> length chvs = 10000 \<and> length chnb = 10000
         \<and> length (replicate 1000 False) = 1000
         \<and> length offs = 1001 \<and> length offs = num_rows batch + 1
         \<and> sorted offs \<and> hd offs = 0 \<and> last offs \<le> 10000"
    using d len o rows by simp
  then show "\<exists>nb offs cnb cvs.
         column_named batch ''d'' =
           Some (ListArray (list_type int64) 1000 nb offs (NumericArray int64 10000 cnb cvs))
         \<and> 10000 = 10 * num_rows batch \<and> length cvs = 10000 \<and> length cnb = 10000
         \<and> length nb = 1000
         \<and> length offs = 1001 \<and> length offs = num_rows batch + 1
         \<and> sorted offs \<and> hd offs = 0 \<and> last offs \<le> 10000"
    by (intro exI)
qed

theorem nested_list_column_witness:
  "in_range lcg_ops \<and>
   (\<exists>batch nb offs cnb cvs.
      ExampleBatch1 lcg_ops = Inr batch
      \<and> num_rows batch = 1000
      \<and> column_named batch ''d'' =
           Some (ListArray (list_type int64) 1000 nb offs (NumericArray int64 10000 cnb cvs))
      \<and> length cvs = 10000 \<and> length offs = 1001
      \<and> sorted offs \<and> hd offs = 0 \<and> last offs \<le> 10000)"
proof -
  note t = nested_list_column [of lcg_ops]
  from t in_range_lcg_ops obtain batch where b: "ExampleBatch1 lcg_ops = Inr batch" by blast
  from t [THEN conjunct2, rule_format, OF b] obtain nb offs cnb cvs where
    "num_rows batch = 1000"
    "column_named batch ''d'' =
           Some (ListArray (list_type int64) 1000 nb offs (NumericArray int64 10000 cnb cvs))"
    "length cvs = 10000" "length offs = 1001" "sorted offs" "hd offs = 0" "last offs \<le> 10000"
    by (elim exE conjE)
  with b in_range_lcg_ops show ?thesis by (intro conjI exI)
qed

text \<open>
  C5. The constant-generated column of the example batch is the int16 column \<open>e\<close>:
  it has the 1000 rows of the batch, every row holds the value 42, and it has no nulls.
  Generation succeeds for every engine whose integer draws stay in their range.
\<close>

theorem constant_column:
  "(in_range ops \<longrightarrow> (\<exists>batch. ExampleBatch1 ops = Inr batch)) \<and>
   (\<forall>batch. ExampleBatch1 ops = Inr batch \<longrightarrow>
      num_rows batch = 1000 \<and>
      (\<exists>nb vs. column_named batch ''e'' = Some (NumericArray int16 1000 nb vs)
         \<and> length vs = 1000 \<and> set vs = {42} \<and> (\<forall>i < 1000. vs ! i = 42)
         \<and> length nb = 1000 \<and> True \<notin> set nb
         \<and> null_count (NumericArray int16 1000 nb vs) = 0))"
proof (intro conjI allI impI)
  assume "in_range ops"
  then show "\<exists>batch. ExampleBatch1 ops = Inr batch" by (rule ExampleBatch1_succeeds)
next
  fix batch
  assume ok: "ExampleBatch1 ops = Inr batch"
  show "num_rows batch = 1000" using ok by (rule ExampleBatch1_sizes(1))
next
  fix batch
  assume ok: "ExampleBatch1 ops = Inr batch"
  have e: "column_named batch ''e'' =
           Some (NumericArray int16 1000 (replicate 1000 False) (replicate 1000 42))"
    using ok by (rule ExampleBatch1_sizes(3))
  have "column_named batch ''e'' =
           Some (NumericArray int16 1000 (replicate 1000 False) (replicate 1000 42))
         \<and> length (replicate 1000 (42::int)) = 1000 \<and> set (replicate 1000 (42::int)) = {42}
         \<and> (\<forall>i < 1000. replicate 1000 (42::int) ! i = 42)
         \<and> length (replicate 1000 False) = 1000 \<and> True \<notin> set (replicate 1000 False)
         \<and> null_count (NumericArray int16 1000 (replicate 1000 False) (replicate 1000 42)) = 0"
    using e by (simp add: null_count_def)
  then show "\<exists>nb vs. column_named batch ''e'' = Some (NumericArray int16 1000 nb vs)
         \<and> length vs = 1000 \<and> set vs = {42} \<and> (\<forall>i < 1000. vs ! i = 42)
         \<and> length nb = 1000 \<and> True \<notin> set nb
         \<and> null_count (NumericArray int16 1000 nb vs) = 0"
    by (intro exI)
qed

theorem constant_column_witness:
  "in_range lcg_ops \<and>
   (\<exists>batch nb vs. ExampleBatch1 lcg_ops = Inr batch
      \<and> num_rows batch = 1000
      \<and> column_named batch ''e'' = Some (NumericArray int16 1000 nb vs)
      \<and> length vs = 1000 \<and> set vs = {42}
      \<and> null_count (NumericArray int16 1000 nb vs) = 0)"
proof -
  note t = constant_column [of lcg_ops]
  from t in_range_lcg_ops obtain batch where b: "ExampleBatch1 lcg_ops = Inr batch" by blast
  from t [THEN conjunct2, rule_format, OF b] obtain nb vs where
    "num_rows batch = 1000"
    "column_named batch ''e'' = Some (NumericArray int16 1000 nb vs)"
    "length vs = 1000" "set vs = {42}"
    "null_count (NumericArray int16 1000 nb vs) = 0"
    by (elim exE conjE)
  with b in_range_lcg_ops show ?thesis by (intro conjI exI)
qed

text \<open>
  C9. The writer properties disable dictionary encoding for the column name
  \<open>no_dict\<close> and for no other name, and \<open>no_dict\<close> is a field of the schema of the
  example batch: it is the only field whose dictionary encoding is off.
\<close>

theorem dictionary_override:
  "(\<forall>name. dictionary_enabled GetWriterProperties name \<longleftrightarrow> name \<noteq> ''no_dict'') \<and>
   no_dictionary_columns GetWriterProperties = {''no_dict''} \<and>
   (\<forall>batch. ExampleBatch1 ops = Inr batch \<longrightarrow>
      ''no_dict'' \<in> set (map fst (schema_fields (batch_schema batch)))
      \<and> distinct (map fst (schema_fields (batch_schema batch)))
      \<and> filter (\<lambda>name. \<not> dictionary_enabled GetWriterProperties name)
                (map fst (schema_fields (batch_schema batch))) = [''no_dict''])"
proof (intro conjI allI impI)
  fix batch
  assume "ExampleBatch1 ops = Inr batch"
  from ExampleBatch1_Inr [OF this] obtain cols where
    "batch = \<lparr>batch_schema = example_schema, num_rows = nat kBatchSize, columns = cols\<rparr>"
    by blast
  then have s: "batch_schema batch = example_schema" by simp
  show "''no_dict'' \<in> set (map fst (schema_fields (batch_schema batch)))"
    by (simp add: s example_schema_def)
  show "distinct (map fst (schema_fields (batch_schema batch)))"
    by (simp add: s example_schema_def)
  show "filter (\<lambda>name. \<not> dictionary_enabled GetWriterProperties name)
                (map fst (schema_fields (batch_schema batch))) = [''no_dict'']"
    by (simp add: s example_schema_def dictionary_enabled_def GetWriterProperties_def
        disable_dictionary_def builder_default_def)
qed (simp_all add: dictionary_enabled_def GetWriterProperties_def
        disable_dictionary_def builder_default_def)

theorem dictionary_override_witness:
  "\<exists>batch. ExampleBatch1 lcg_ops = Inr batch
      \<and> ''no_dict'' \<in> set (map fst (schema_fields (batch_schema batch)))
      \<and> filter (\<lambda>name. \<not> dictionary_enabled GetWriterProperties name)
                (map fst (schema_fields (batch_schema batch))) = [''no_dict'']
      \<and> \<not> dictionary_enabled GetWriterProperties ''no_dict''
      \<and> dictionary_enabled GetWriterProperties ''a''"
proof -
  obtain batch where "ExampleBatch1 lcg_ops = Inr batch"
    using ExampleBatch1_succeeds [OF in_range_lcg_ops] ..
  moreover from this have "''no_dict'' \<in> set (map fst (schema_fields (batch_schema batch)))
      \<and> filter (\<lambda>name. \<not> dictionary_enabled GetWriterProperties name)
                (map fst (schema_fields (batch_schema batch))) = [''no_dict'']"
    using dictionary_override [of lcg_ops] by blast
  moreover have "\<not> dictionary_enabled GetWriterProperties ''no_dict''
      \<and> dictionary_enabled GetWriterProperties ''a''"
    using dictionary_override [of lcg_ops] by simp
  ultimately show ?thesis by blast
qed

subsection \<open>Runs that stop at the first failure\<close>

lemma stopped_run_Nil: "stopped_run [] [] None"
  by (simp add: stopped_run_def)

lemma stopped_run_ok_step:
  "stopped_run [s] [(s, None)] None"
  by (simp add: stopped_run_def succeeded_def)

lemma stopped_run_failed_step:
  "stopped_run [s] [(s, Some err)] (Some err)"
  by (simp add: stopped_run_def)

lemma stopped_run_fail_left:
  assumes "stopped_run xs tr (Some err)"
  shows "stopped_run (xs @ ys) tr (Some err)"
proof -
  from assms have len: "0 < length tr" "length tr \<le> length xs"
    and tr: "tr = map succeeded (take (length tr - 1) xs) @ [(xs ! (length tr - 1), Some err)]"
    by (simp_all add: stopped_run_def)
  have "take (length tr - 1) (xs @ ys) = take (length tr - 1) xs" using len by simp
  moreover have "length tr - 1 < length xs" using len by linarith
  then have "(xs @ ys) ! (length tr - 1) = xs ! (length tr - 1)"
    by (simp add: nth_append)
  ultimately show ?thesis using len tr by (simp add: stopped_run_def)
qed

lemma stopped_run_seq:
  assumes "stopped_run xs tr1 None" and "stopped_run ys tr2 st"
  shows "stopped_run (xs @ ys) (tr1 @ tr2) st"
proof (cases st)
  case None
  with assms show ?thesis by (simp add: stopped_run_def)
next
  case (Some err)
  from assms(1) have tr1: "tr1 = map succeeded xs" by (simp add: stopped_run_def)
  then have l1: "length tr1 = length xs" by simp
  from assms(2) Some have len: "0 < length tr2" "length tr2 \<le> length ys"
    and tr2: "tr2 = map succeeded (take (length tr2 - 1) ys) @ [(ys ! (length tr2 - 1), Some err)]"
    by (simp_all add: stopped_run_def)
  have "length (tr1 @ tr2) = length xs + length tr2" using l1 by simp
  then have idx: "length (tr1 @ tr2) - 1 = length xs + (length tr2 - 1)" using len by linarith
  have "map succeeded (take (length (tr1 @ tr2) - 1) (xs @ ys))
         @ [((xs @ ys) ! (length (tr1 @ tr2) - 1), Some err)]
        = tr1 @ (map succeeded (take (length tr2 - 1) ys) @ [(ys ! (length tr2 - 1), Some err)])"
    unfolding idx by (simp add: tr1 nth_append)
  then have eq: "tr1 @ tr2 = map succeeded (take (length (tr1 @ tr2) - 1) (xs @ ys))
         @ [((xs @ ys) ! (length (tr1 @ tr2) - 1), Some err)]"
    using tr2 by simp
  have pos: "0 < length (tr1 @ tr2)" using len by simp
  have le: "length (tr1 @ tr2) \<le> length (xs @ ys)" using len l1 by simp
  show ?thesis unfolding stopped_run_def Some option.case
    using pos le eq by blast
qed

lemma faithful_Nil: "faithful []"
  by (simp add: faithful_def)

lemma faithful_append: "faithful (xs @ ys) \<longleftrightarrow> faithful xs \<and> faithful ys"
  by (auto simp: faithful_def)

subsection \<open>What the computations perform\<close>

lemma bind_cases:
  assumes "bind m f tr = (r, tr2)"
  obtains (stop) err where "m tr = (Inl err, tr2)" "r = Inl err"
    | (continue) v tr1 where "m tr = (Inr v, tr1)" "f v tr1 = (r, tr2)"
  using assms by (auto simp: bind_def split: prod.splits sum.splits)

lemma performsI:
  assumes "\<And>tr r tr1. m tr = (r, tr1) \<Longrightarrow>
     \<exists>new. tr1 = tr @ new \<and> stopped_run steps new (status_of r) \<and> faithful new"
    and "\<And>tr v tr1. m tr = (Inr v, tr1) \<Longrightarrow> R v"
  shows "performs m steps R"
  using assms unfolding performs_def by blast

lemma performsD:
  assumes "performs m steps R" and "m tr = (r, tr1)"
  shows "\<exists>new. tr1 = tr @ new \<and> stopped_run steps new (status_of r) \<and> faithful new"
    and "r = Inr v \<Longrightarrow> R v"
  using assms unfolding performs_def by blast+

lemma performs_return: "R v \<Longrightarrow> performs (return v) [] R"
  by (rule performsI) (auto simp: return_def status_of_def stopped_run_Nil faithful_Nil)

lemma performs_ext:
  assumes "R v" and "\<And>batch. s \<noteq> ValidateFull_step batch"
  shows "performs (ext env s v) [s] R"
proof (rule performsI)
  fix tr r tr1
  assume "ext env s v tr = (r, tr1)"
  then have "tr1 = tr @ [(s, status_of r)]"
    by (auto simp: ext_def status_of_def split: option.splits)
  moreover have "stopped_run [s] [(s, status_of r)] (status_of r)"
    by (cases "status_of r") (simp_all add: stopped_run_ok_step stopped_run_failed_step)
  moreover have "faithful [(s, status_of r)]"
    using assms(2) by (auto simp: faithful_def)
  ultimately show "\<exists>new. tr1 = tr @ new \<and> stopped_run [s] new (status_of r) \<and> faithful new"
    by blast
next
  fix tr x tr1
  assume "ext env s v tr = (Inr x, tr1)"
  then have "x = v" by (auto simp: ext_def split: option.splits)
  then show "R x" using assms(1) by simp
qed

lemma performs_computed:
  assumes "\<And>v. c = Inr v \<Longrightarrow> R v"
    and "\<And>batch. s = ValidateFull_step batch \<Longrightarrow> status_of c = ValidateFull batch"
  shows "performs (computed s c) [s] R"
proof (rule performsI)
  fix tr r tr1
  assume run: "computed s c tr = (r, tr1)"
  then have r: "r = c" by (auto simp: computed_def split: sum.splits)
  from run have "tr1 = tr @ [(s, status_of r)]"
    by (auto simp: computed_def status_of_def split: sum.splits)
  moreover have "stopped_run [s] [(s, status_of r)] (status_of r)"
    by (cases "status_of r") (simp_all add: stopped_run_ok_step stopped_run_failed_step)
  moreover have "faithful [(s, status_of r)]"
    using assms(2) r by (auto simp: faithful_def)
  ultimately show "\<exists>new. tr1 = tr @ new \<and> stopped_run [s] new (status_of r) \<and> faithful new"
    by blast
next
  fix tr x tr1
  assume "computed s c tr = (Inr x, tr1)"
  then have "c = Inr x" by (auto simp: computed_def split: sum.splits)
  then show "R x" by (rule assms(1))
qed

lemma performs_cerr: "performs (cerr line) [Stderr_step line] (\<lambda>_. True)"
  by (rule performsI)
     (auto simp: cerr_def status_of_def stopped_run_ok_step faithful_def)

lemma performs_bind:
  assumes m: "performs m xs P" and f: "\<And>v. P v \<Longrightarrow> performs (f v) ys R"
  shows "performs (bind m f) (xs @ ys) R"
proof (rule performsI)
  fix tr r tr2
  assume "bind m f tr = (r, tr2)"
  then show "\<exists>new. tr2 = tr @ new \<and> stopped_run (xs @ ys) new (status_of r) \<and> faithful new"
  proof (cases rule: bind_cases)
    case (stop err)
    from performsD(1) [OF m stop(1)] obtain new where
      "tr2 = tr @ new" "stopped_run xs new (Some err)" "faithful new"
      by (auto simp: status_of_def)
    then show ?thesis using stop(2) stopped_run_fail_left by (auto simp: status_of_def)
  next
    case (continue v tr1)
    from performsD(1) [OF m continue(1)] obtain new1 where
      n1: "tr1 = tr @ new1" "stopped_run xs new1 None" "faithful new1"
      by (auto simp: status_of_def)
    have "P v" using performsD(2) [OF m continue(1)] by simp
    from performsD(1) [OF f [OF this] continue(2)] obtain new2 where
      n2: "tr2 = tr1 @ new2" "stopped_run ys new2 (status_of r)" "faithful new2"
      by blast
    have "tr2 = tr @ (new1 @ new2)" using n1(1) n2(1) by simp
    moreover have "stopped_run (xs @ ys) (new1 @ new2) (status_of r)"
      using n1(2) n2(2) by (rule stopped_run_seq)
    moreover have "faithful (new1 @ new2)" using n1(3) n2(3) by (simp add: faithful_append)
    ultimately show ?thesis by blast
  qed
next
  fix tr v tr2
  assume "bind m f tr = (Inr v, tr2)"
  then show "R v"
  proof (cases rule: bind_cases)
    case (stop err)
    then show ?thesis by simp
  next
    case (continue x tr1)
    have "P x" using performsD(2) [OF m continue(1)] by simp
    from performsD(2) [OF f [OF this] continue(2)] show ?thesis by simp
  qed
qed

lemma performs_weaken:
  "performs m steps P \<Longrightarrow> (\<And>v. P v \<Longrightarrow> R v) \<Longrightarrow> performs m steps R"
  unfolding performs_def by blast

lemma FromRecordBatches_single: "FromRecordBatches [batch] = Inr (table_of batch)"
  by (simp add: FromRecordBatches_def table_of_def)

lemma write_batch_performs:
  "performs (write_batch env dir_fn props batch n) (batch_steps dir_fn props batch n)
     (\<lambda>v. v = n + 1 \<and> ValidateFull batch = None)"
proof -
  let ?name = "''pq-table-'' @ to_string n"
  let ?path = "Join dir_fn ?name"
  have valid: "performs (computed (ValidateFull_step batch) (of_status (ValidateFull batch)))
      [ValidateFull_step batch] (\<lambda>_. ValidateFull batch = None)"
    by (rule performs_computed) (auto simp: of_status_def status_of_def split: option.splits)
  have table: "performs (computed (FromRecordBatches_step [batch]) (FromRecordBatches [batch]))
      [FromRecordBatches_step [batch]] (\<lambda>t. t = table_of batch)"
    by (rule performs_computed) (simp_all add: FromRecordBatches_single)
  have join: "performs (ext env (Join_step dir_fn ?name) ?path) [Join_step dir_fn ?name]
      (\<lambda>p. p = ?path)"
    by (rule performs_ext) simp_all
  have opn: "performs (ext env (Open_step ?path) ?path) [Open_step ?path] (\<lambda>p. p = ?path)"
    by (rule performs_ext) simp_all
  have wr: "performs (ext env (WriteTable_step ?path (table_of batch) kChunkSize props) ())
      [WriteTable_step ?path (table_of batch) kChunkSize props] (\<lambda>_. True)"
    by (rule performs_ext) simp_all
  have cl: "performs (ext env (Close_step ?path) ()) [Close_step ?path] (\<lambda>_. True)"
    by (rule performs_ext) simp_all
  have tail: "performs
      (bind (computed (FromRecordBatches_step [batch]) (FromRecordBatches [batch])) (\<lambda>table.
       bind (ext env (Join_step dir_fn ?name) ?path) (\<lambda>sample_fn.
       bind (cerr sample_fn) (\<lambda>_.
       bind (ext env (Open_step sample_fn) sample_fn) (\<lambda>file.
       bind (ext env (WriteTable_step file table kChunkSize props) ()) (\<lambda>_.
       bind (ext env (Close_step file) ()) (\<lambda>_.
       return (n + 1))))))))
      ([FromRecordBatches_step [batch]] @ [Join_step dir_fn ?name] @ [Stderr_step ?path]
        @ [Open_step ?path] @ [WriteTable_step ?path (table_of batch) kChunkSize props]
        @ [Close_step ?path] @ [])
      (\<lambda>v. v = n + 1)"
    apply (rule performs_bind [OF table])
    apply (rule performs_bind [OF join])
    apply (simp only:)
    apply (rule performs_bind [OF performs_cerr])
    apply (rule performs_bind [OF opn])
    apply (simp only:)
    apply (rule performs_bind [OF wr])
    apply (rule performs_bind [OF cl])
    apply (rule performs_return)
    apply simp
    done
  have "performs
      (bind (computed (ValidateFull_step batch) (of_status (ValidateFull batch))) (\<lambda>_.
       bind (computed (FromRecordBatches_step [batch]) (FromRecordBatches [batch])) (\<lambda>table.
       bind (ext env (Join_step dir_fn ?name) ?path) (\<lambda>sample_fn.
       bind (cerr sample_fn) (\<lambda>_.
       bind (ext env (Open_step sample_fn) sample_fn) (\<lambda>file.
       bind (ext env (WriteTable_step file table kChunkSize props) ()) (\<lambda>_.
       bind (ext env (Close_step file) ()) (\<lambda>_.
       return (n + 1)))))))))
      ([ValidateFull_step batch] @ [FromRecordBatches_step [batch]] @ [Join_step dir_fn ?name]
        @ [Stderr_step ?path] @ [Open_step ?path]
        @ [WriteTable_step ?path (table_of batch) kChunkSize props] @ [Close_step ?path] @ [])
      (\<lambda>v. v = n + 1 \<and> ValidateFull batch = None)"
    by (rule performs_bind [OF valid]) (rule performs_weaken [OF tail], simp)
  then show ?thesis
    by (simp add: write_batch_def sample_name_def batch_steps_def)
qed

lemma write_batches_performs:
  "performs (write_batches env dir_fn props batches n) (loop_steps dir_fn props batches n)
     (\<lambda>v. v = n + int (length batches) \<and> (\<forall>b \<in> set batches. ValidateFull b = None))"
proof (induction batches arbitrary: n)
  case Nil
  show ?case by (simp add: performs_return)
next
  case (Cons batch rest)
  have "performs (bind (write_batch env dir_fn props batch n) (write_batches env dir_fn props rest))
      (batch_steps dir_fn props batch n @ loop_steps dir_fn props rest (n + 1))
      (\<lambda>v. v = n + int (length (batch # rest)) \<and> (\<forall>b \<in> set (batch # rest). ValidateFull b = None))"
  proof (rule performs_bind [OF write_batch_performs])
    fix v
    assume v: "v = n + 1 \<and> ValidateFull batch = None"
    show "performs (write_batches env dir_fn props rest v) (loop_steps dir_fn props rest (n + 1))
      (\<lambda>v. v = n + int (length (batch # rest)) \<and> (\<forall>b \<in> set (batch # rest). ValidateFull b = None))"
      using Cons.IH [of "n + 1"] v by (auto elim!: performs_weaken)
  qed
  then show ?case by simp
qed

lemma DoMain_performs:
  "performs (DoMain ops env out_dir) (main_steps out_dir (generated ops))
     (\<lambda>_. \<exists>batches. Batches ops = Inr batches \<and> (\<forall>b \<in> set batches. ValidateFull b = None))"
proof -
  have fs: "performs (ext env (FromString_step out_dir) out_dir) [FromString_step out_dir]
      (\<lambda>d. d = out_dir)"
    by (rule performs_ext) simp_all
  have cd: "performs (ext env (CreateDir_step out_dir) ()) [CreateDir_step out_dir] (\<lambda>_. True)"
    by (rule performs_ext) simp_all
  have gen: "performs (computed Batches_step (Batches ops)) [Batches_step]
      (\<lambda>batches. Batches ops = Inr batches)"
    by (rule performs_computed) simp_all
  have loop: "performs
      (bind (write_batches env out_dir GetWriterProperties batches 1) (\<lambda>_. return ()))
      (loop_steps out_dir GetWriterProperties (generated ops) 1 @ [])
      (\<lambda>_. \<exists>batches. Batches ops = Inr batches \<and> (\<forall>b \<in> set batches. ValidateFull b = None))"
    if b: "Batches ops = Inr batches" for batches
  proof -
    have g: "generated ops = batches" using b by (simp add: generated_def)
    show ?thesis
      unfolding g
      apply (rule performs_bind [OF write_batches_performs])
      apply (rule performs_return)
      using b apply simp
      done
  qed
  have "performs
     (bind (ext env (FromString_step out_dir) out_dir) (\<lambda>dir_fn.
      bind (ext env (CreateDir_step dir_fn) ()) (\<lambda>_.
      bind (computed Batches_step (Batches ops)) (\<lambda>batches.
      bind (write_batches env dir_fn GetWriterProperties batches 1) (\<lambda>_.
      return ())))))
     ([FromString_step out_dir] @ [CreateDir_step out_dir] @ [Batches_step]
       @ loop_steps out_dir GetWriterProperties (generated ops) 1 @ [])
     (\<lambda>_. \<exists>batches. Batches ops = Inr batches \<and> (\<forall>b \<in> set batches. ValidateFull b = None))"
    apply (rule performs_bind [OF fs])
    apply (simp only:)
    apply (rule performs_bind [OF cd])
    apply (rule performs_bind [OF gen])
    apply (erule loop)
    done
  then show ?thesis by (simp add: DoMain_def main_steps_def)
qed

subsection \<open>The example batch is valid\<close>

lemma ExampleBatch1_valid:
  assumes "ExampleBatch1 ops = Inr batch"
  shows "ValidateFull batch = None"
proof -
  from ExampleBatch1_Inr [OF assms] obtain anb avs bnb bvs cnb cvs offs chnb chvs nnb nvs where
    batch: "batch = \<lparr>batch_schema = example_schema, num_rows = nat kBatchSize,
              columns = [NumericArray int16 (nat kBatchSize) anb avs,
                         DoubleArray (nat kBatchSize) bnb bvs,
                         StringArray (nat kBatchSize) cnb cvs,
                         ListArray (list_type int64) (nat kBatchSize)
                           (replicate (nat kBatchSize) False) offs
                           (NumericArray int64 (nat (kBatchSize * 10)) chnb chvs),
                         NumericArray int16 (nat kBatchSize)
                           (replicate (nat kBatchSize) False) (replicate (nat kBatchSize) 42),
                         StringArray (nat kBatchSize) nnb nvs]\<rparr>"
    and len: "length anb = nat kBatchSize" "length avs = nat kBatchSize"
      "length bnb = nat kBatchSize" "length bvs = nat kBatchSize"
      "length cnb = nat kBatchSize" "length cvs = nat kBatchSize"
      "length chnb = nat (kBatchSize * 10)" "length chvs = nat (kBatchSize * 10)"
      "length nnb = nat kBatchSize" "length nvs = nat kBatchSize"
    and offs: "offsets_ok (nat kBatchSize) offs (nat (kBatchSize * 10))"
    by blast
  show ?thesis
    unfolding ValidateFull_def batch
    using len offs by (simp add: example_schema_def)
qed

lemma Batches_Inr: "Batches ops = Inr batches \<longleftrightarrow> (\<exists>batch. ExampleBatch1 ops = Inr batch \<and> batches = [batch])"
  by (auto simp: Batches_def split: sum.splits)

subsection \<open>Runs in which every call succeeds\<close>

lemma ext_env_ok: "ext env_ok s v tr = (Inr v, tr @ [(s, None)])"
  by (simp add: ext_def env_ok_def)

lemma write_batch_env_ok:
  assumes "ValidateFull batch = None"
  shows "write_batch env_ok dir_fn props batch n tr =
           (Inr (n + 1), tr @ map succeeded (batch_steps dir_fn props batch n))"
  using assms
  by (simp add: write_batch_def bind_def computed_def of_status_def FromRecordBatches_single
      sample_name_def ext_env_ok cerr_def return_def batch_steps_def succeeded_def)

lemma DoMain_env_ok:
  assumes "ExampleBatch1 ops = Inr batch"
  shows "DoMain ops env_ok out_dir [] = (Inr (), map succeeded (main_steps out_dir [batch]))"
proof -
  have b: "Batches ops = Inr [batch]" using assms by (simp add: Batches_Inr)
  have v: "ValidateFull batch = None" using assms by (rule ExampleBatch1_valid)
  show ?thesis
    by (simp add: DoMain_def bind_def ext_env_ok computed_def b write_batch_env_ok [OF v]
        return_def main_steps_def succeeded_def)
qed

subsection \<open>How a stopped run ends\<close>

lemma stopped_run_Some:
  assumes "stopped_run steps tr (Some err)"
  shows "tr \<noteq> []" and "snd (last tr) = Some err" and "\<forall>e \<in> set (butlast tr). snd e = None"
proof -
  from assms have len: "0 < length tr"
    and tr: "tr = map succeeded (take (length tr - 1) steps) @ [(steps ! (length tr - 1), Some err)]"
    by (simp_all add: stopped_run_def)
  show "tr \<noteq> []" using len by simp
  have "last tr = (steps ! (length tr - 1), Some err)" by (subst tr) simp
  then show "snd (last tr) = Some err" by simp
  have "butlast tr = map succeeded (take (length tr - 1) steps)" by (subst tr) simp
  then show "\<forall>e \<in> set (butlast tr). snd e = None" by (auto simp: succeeded_def)
qed

lemma stopped_run_None:
  assumes "stopped_run steps tr None"
  shows "tr = map succeeded steps" and "\<forall>e \<in> set tr. snd e = None"
  using assms by (auto simp: stopped_run_def succeeded_def)

lemma files_written_append: "files_written (xs @ ys) = files_written xs @ files_written ys"
  by (simp add: files_written_def)


subsection \<open>Exit codes\<close>



text \<open>
  C10. With a wrong argument count the program ends with the usage exit code and has
  done nothing to the file system: no directory was created and no file was opened,
  written or closed. The usage line is the only step of the run.
\<close>

theorem usage_has_no_effect:
  assumes "length argv \<noteq> 2"
  shows "fst (Main ops env argv) = 2
    \<and> fs_effects (snd (Main ops env argv)) = []
    \<and> opened (snd (Main ops env argv)) = []
    \<and> files_written (snd (Main ops env argv)) = []
    \<and> snd (Main ops env argv) = [(Stderr_step usage_line, None)]"
  using assms
  by (simp add: Main_def Usage_def fs_effects_def opened_def files_written_def)

theorem usage_has_no_effect_witness:
  "length [''prog'', ''out'', ''extra''] \<noteq> 2
    \<and> fst (Main lcg_ops env_ok [''prog'', ''out'', ''extra'']) = 2
    \<and> fs_effects (snd (Main lcg_ops env_ok [''prog'', ''out'', ''extra''])) = []
    \<and> opened (snd (Main lcg_ops env_ok [''prog'', ''out'', ''extra''])) = []
    \<and> files_written (snd (Main lcg_ops env_ok [''prog'', ''out'', ''extra''])) = []"
proof -
  have ne: "length [''prog'', ''out'', ''extra''] \<noteq> 2" by simp
  show ?thesis using ne usage_has_no_effect [OF ne, of lcg_ops env_ok] by blast
qed

subsection \<open>The first failure ends the run\<close>

text \<open>The small batches and the first decimal numerals, for running the loop.\<close>

lemma ValidateFull_small_batch: "ValidateFull small_batch = None"
  by (simp add: ValidateFull_def small_batch_def)

lemma ValidateFull_broken_batch:
  "ValidateFull broken_batch = Some (Error BatchValidationError ''values length'')"
  by (simp add: ValidateFull_def broken_batch_def invalid_def)

lemma to_string_1: "to_string 1 = ''1''"
  by code_simp

lemma to_string_2: "to_string 2 = ''2''"
  by code_simp

lemma to_string_3: "to_string 3 = ''3''"
  by code_simp

text \<open>
  C8. The first failing step ends the run: every step before it succeeded, it is the
  last step of the run, and its error is what \<open>DoMain\<close> returns; \<open>Main\<close> then reports
  it and exits with 1. This holds for \<open>DoMain\<close> and for the loop over any list of
  batches, from any trace. The run only extends the trace it started from, so every
  file written before the failure is still there as it was written.
\<close>

theorem fail_fast:
  "(\<forall>tr0 r tr1. DoMain ops env out_dir tr0 = (r, tr1) \<longrightarrow>
      (\<exists>new. tr1 = tr0 @ new
         \<and> stopped_run (main_steps out_dir (generated ops)) new (status_of r)
         \<and> files_written tr1 = files_written tr0 @ files_written new))
   \<and> (\<forall>tr0 r tr1. write_batches env out_dir props batches n tr0 = (r, tr1) \<longrightarrow>
      (\<exists>new. tr1 = tr0 @ new
         \<and> stopped_run (loop_steps out_dir props batches n) new (status_of r)
         \<and> files_written tr1 = files_written tr0 @ files_written new))
   \<and> (\<forall>err tr. DoMain ops env out_dir [] = (Inl err, tr) \<longrightarrow>
         tr \<noteq> [] \<and> snd (last tr) = Some err \<and> (\<forall>e \<in> set (butlast tr). snd e = None)
         \<and> Main ops env [prog, out_dir] = (1, tr @ [(Stderr_step (ToString err), None)]))"
proof (intro conjI allI impI)
  fix tr0 r tr1
  assume "DoMain ops env out_dir tr0 = (r, tr1)"
  from performsD(1) [OF DoMain_performs this] obtain new where
    "tr1 = tr0 @ new" "stopped_run (main_steps out_dir (generated ops)) new (status_of r)"
    by blast
  then show "\<exists>new. tr1 = tr0 @ new
         \<and> stopped_run (main_steps out_dir (generated ops)) new (status_of r)
         \<and> files_written tr1 = files_written tr0 @ files_written new"
    by (auto simp: files_written_append)
next
  fix tr0 r tr1
  assume "write_batches env out_dir props batches n tr0 = (r, tr1)"
  from performsD(1) [OF write_batches_performs this] obtain new where
    "tr1 = tr0 @ new" "stopped_run (loop_steps out_dir props batches n) new (status_of r)"
    by blast
  then show "\<exists>new. tr1 = tr0 @ new
         \<and> stopped_run (loop_steps out_dir props batches n) new (status_of r)
         \<and> files_written tr1 = files_written tr0 @ files_written new"
    by (auto simp: files_written_append)
next
  fix err tr
  assume run: "DoMain ops env out_dir [] = (Inl err, tr)"
  from performsD(1) [OF DoMain_performs run]
  have sr: "stopped_run (main_steps out_dir (generated ops)) tr (Some err)"
    by (simp add: status_of_def)
  show "tr \<noteq> []" using sr by (rule stopped_run_Some(1))
  show "snd (last tr) = Some err" using sr by (rule stopped_run_Some(2))
  show "\<forall>e \<in> set (butlast tr). snd e = None" using sr by (rule stopped_run_Some(3))
  show "Main ops env [prog, out_dir] = (1, tr @ [(Stderr_step (ToString err), None)])"
    using run by (simp add: Main_def)
qed

lemma close_fails_run:
  "write_batches close_fails ''out'' GetWriterProperties [small_batch, small_batch, small_batch] 1 []
   = (Inl (Error IOError ''close failed''),
      map succeeded (batch_steps ''out'' GetWriterProperties small_batch 1)
      @ map succeeded (take 6 (batch_steps ''out'' GetWriterProperties small_batch 2))
      @ [(Close_step ''out/pq-table-2'', Some (Error IOError ''close failed''))])"
  by (simp add: write_batch_def bind_def computed_def of_status_def FromRecordBatches_single
      sample_name_def ext_def cerr_def return_def close_fails_def env_failing_def
      ValidateFull_small_batch to_string_1 to_string_2 Join_def batch_steps_def succeeded_def)

theorem fail_fast_witness:
  "\<exists>tr. write_batches close_fails ''out'' GetWriterProperties
           [small_batch, small_batch, small_batch] 1 []
         = (Inl (Error IOError ''close failed''), tr)
     \<and> stopped_run
          (loop_steps ''out'' GetWriterProperties [small_batch, small_batch, small_batch] 1)
          tr (Some (Error IOError ''close failed''))
     \<and> length tr = 14
     \<and> last tr = (Close_step ''out/pq-table-2'', Some (Error IOError ''close failed''))
     \<and> map fst (files_written tr) = [''out/pq-table-1'', ''out/pq-table-2'']"
proof -
  define tr where "tr = map succeeded (batch_steps ''out'' GetWriterProperties small_batch 1)
      @ map succeeded (take 6 (batch_steps ''out'' GetWriterProperties small_batch 2))
      @ [(Close_step ''out/pq-table-2'', Some (Error IOError ''close failed''))]"
  have run: "write_batches close_fails ''out'' GetWriterProperties
           [small_batch, small_batch, small_batch] 1 []
         = (Inl (Error IOError ''close failed''), tr)"
    unfolding tr_def by (rule close_fails_run)
  note ff = fail_fast [of lcg_ops close_fails "''out''" GetWriterProperties
        "[small_batch, small_batch, small_batch]" 1 "''prog''"]
  from ff [THEN conjunct2, THEN conjunct1, rule_format, OF run]
  obtain new where new: "tr = [] @ new"
    and sr: "stopped_run
          (loop_steps ''out'' GetWriterProperties [small_batch, small_batch, small_batch] 1)
          new (status_of (Inl (Error IOError ''close failed'') :: error + int))"
    by blast
  have st: "status_of (Inl (Error IOError ''close failed'') :: error + int)
      = Some (Error IOError ''close failed'')"
    by (simp add: status_of_def)
  have "new = tr" using new by (simp only: append_Nil)
  then have sr': "stopped_run
          (loop_steps ''out'' GetWriterProperties [small_batch, small_batch, small_batch] 1)
          tr (Some (Error IOError ''close failed''))"
    using sr unfolding st by (simp only:)
  have len: "length tr = 14" by (simp add: tr_def batch_steps_def)
  have lst: "last tr = (Close_step ''out/pq-table-2'', Some (Error IOError ''close failed''))"
    by (simp add: tr_def)
  have fw: "map fst (files_written tr) = [''out/pq-table-1'', ''out/pq-table-2'']"
    by (simp add: tr_def files_written_def batch_steps_def succeeded_def to_string_1 to_string_2
        Join_def)
  from run sr' len lst fw show ?thesis by (intro exI [of _ tr] conjI)
qed

subsection \<open>Decimal numerals\<close>

lemma digit_value_digit_char: "d < 10 \<Longrightarrow> digit_value (digit_char d) = d"
  by (simp add: digit_value_def digit_char_def)

lemma of_digits_snoc: "of_digits (cs @ [c]) = 10 * of_digits cs + digit_value c"
  by (simp add: of_digits_def)

lemma of_digits_to_string_nat: "of_digits (to_string_nat n) = n"
proof (induction n rule: to_string_nat.induct)
  case (1 n)
  show ?case
  proof (cases "n < 10")
    case True
    then have "to_string_nat n = [digit_char n]" by simp
    then show ?thesis using True by (simp add: of_digits_def digit_value_digit_char)
  next
    case False
    then have "to_string_nat n = to_string_nat (n div 10) @ [digit_char (n mod 10)]" by simp
    then have "of_digits (to_string_nat n) = 10 * of_digits (to_string_nat (n div 10)) + n mod 10"
      by (simp add: of_digits_snoc digit_value_digit_char)
    then show ?thesis using "1.IH" [OF False] by simp
  qed
qed

lemma to_string_nat_inj: "to_string_nat m = to_string_nat n \<Longrightarrow> m = n"
  by (metis of_digits_to_string_nat)

lemma to_string_nat_no_sign: "to_string_nat n \<noteq> [] \<and> hd (to_string_nat n) \<noteq> CHR ''-''"
proof (induction n rule: to_string_nat.induct)
  case (1 n)
  show ?case
  proof (cases "n < 10")
    case True
    then have eq: "to_string_nat n = [digit_char n]" by simp
    have "digit_value (digit_char n) = n" using True by (rule digit_value_digit_char)
    moreover have "digit_value CHR ''-'' = 0" by (simp add: digit_value_def)
    moreover have "digit_char 0 \<noteq> CHR ''-''" by code_simp
    ultimately have "digit_char n \<noteq> CHR ''-''" by (cases "n = 0") auto
    then show ?thesis using eq by simp
  next
    case False
    then have "to_string_nat n = to_string_nat (n div 10) @ [digit_char (n mod 10)]" by simp
    then show ?thesis using "1.IH" [OF False] by simp
  qed
qed

lemma to_string_inj: "to_string i = to_string j \<Longrightarrow> i = j"
proof -
  assume eq: "to_string i = to_string j"
  consider "i < 0" "j < 0" | "0 \<le> i" "0 \<le> j" | "i < 0" "0 \<le> j" | "0 \<le> i" "j < 0"
    by linarith
  then show ?thesis
  proof cases
    case 1
    with eq have "to_string_nat (nat (- i)) = to_string_nat (nat (- j))"
      by (simp add: to_string_def)
    then have "nat (- i) = nat (- j)" by (rule to_string_nat_inj)
    with 1 show ?thesis by simp
  next
    case 2
    with eq have "to_string_nat (nat i) = to_string_nat (nat j)" by (simp add: to_string_def)
    then have "nat i = nat j" by (rule to_string_nat_inj)
    with 2 show ?thesis by simp
  next
    case 3
    with eq have "CHR ''-'' # to_string_nat (nat (- i)) = to_string_nat (nat j)"
      by (simp add: to_string_def)
    then have "hd (to_string_nat (nat j)) = CHR ''-''" by (metis list.sel(1))
    then show ?thesis using to_string_nat_no_sign [of "nat j"] by simp
  next
    case 4
    with eq have "to_string_nat (nat i) = CHR ''-'' # to_string_nat (nat (- j))"
      by (simp add: to_string_def)
    then have "hd (to_string_nat (nat i)) = CHR ''-''" by (metis list.sel(1))
    then show ?thesis using to_string_nat_no_sign [of "nat i"] by simp
  qed
qed

subsection \<open>Reading a stopped run\<close>

lemma stopped_run_failedI:
  assumes "k < length steps"
  shows "stopped_run steps (map succeeded (take k steps) @ [(steps ! k, Some err)]) (Some err)"
proof -
  have "length (map succeeded (take k steps) @ [(steps ! k, Some err)]) = Suc k"
    using assms by simp
  then show ?thesis using assms unfolding stopped_run_def option.case by simp
qed

lemma stopped_run_appendD:
  assumes "stopped_run (xs @ ys) tr st"
  shows "(\<exists>err. st = Some err \<and> stopped_run xs tr (Some err))
       \<or> (\<exists>tr2. tr = map succeeded xs @ tr2 \<and> stopped_run ys tr2 st)"
proof (cases st)
  case None
  with assms have "tr = map succeeded xs @ map succeeded ys" by (simp add: stopped_run_def)
  moreover have "stopped_run ys (map succeeded ys) None" by (simp add: stopped_run_def)
  ultimately show ?thesis using None by blast
next
  case (Some err)
  define k where "k = length tr - 1"
  from assms Some have len: "0 < length tr" "length tr \<le> length (xs @ ys)"
    and tr: "tr = map succeeded (take k (xs @ ys)) @ [((xs @ ys) ! k, Some err)]"
    by (simp_all add: stopped_run_def k_def)
  have ltr: "length tr = Suc k" using len(1) by (simp add: k_def)
  show ?thesis
  proof (cases "k < length xs")
    case True
    then have "take k (xs @ ys) = take k xs" "(xs @ ys) ! k = xs ! k"
      by (simp_all add: nth_append)
    with tr have "tr = map succeeded (take k xs) @ [(xs ! k, Some err)]" by simp
    then have "stopped_run xs tr (Some err)"
      using stopped_run_failedI [OF True] by simp
    then show ?thesis using Some by blast
  next
    case False
    define j where "j = k - length xs"
    from False have k: "k = length xs + j" by (simp add: j_def)
    have jlt: "j < length ys" using len(2) ltr k by simp
    define tr2 where "tr2 = map succeeded (take j ys) @ [(ys ! j, Some err)]"
    have tk: "take k (xs @ ys) = xs @ take j ys" and nk: "(xs @ ys) ! k = ys ! j"
      using k by (simp_all add: nth_append)
    have "tr = map succeeded xs @ tr2"
      by (subst tr) (simp only: tk nk tr2_def map_append append_assoc)
    moreover have "stopped_run ys tr2 (Some err)"
      unfolding tr2_def using jlt by (rule stopped_run_failedI)
    ultimately show ?thesis using Some by blast
  qed
qed

lemma stopped_run_failed_cases:
  assumes "stopped_run steps tr (Some err)"
  obtains k where "k < length steps"
    and "tr = map succeeded (take k steps) @ [(steps ! k, Some err)]"
proof -
  from assms have len: "0 < length tr" "length tr \<le> length steps"
    and tr: "tr = map succeeded (take (length tr - 1) steps) @ [(steps ! (length tr - 1), Some err)]"
    by (simp_all add: stopped_run_def)
  have "length tr - 1 < length steps" using len by linarith
  then show ?thesis using tr that by blast
qed

lemma handed_to_writer_append:
  "handed_to_writer (xs @ ys) = handed_to_writer xs @ handed_to_writer ys"
  by (simp add: handed_to_writer_def)

lemma faithful_batch_valid:
  assumes "faithful tr" and "(ValidateFull_step batch, None) \<in> set tr"
  shows "ValidateFull batch = None"
  using assms unfolding faithful_def by metis

text \<open>A run of one iteration that fails: what it handed to the writer, and the gate.\<close>

lemma batch_failure:
  assumes run: "stopped_run (batch_steps dir_fn props batch n) tr (Some err)"
    and f: "faithful tr"
  shows "gate_ok v tr
    \<and> (handed_to_writer tr = []
        \<or> handed_to_writer tr
             = [(Join dir_fn (''pq-table-'' @ to_string n), table_of batch, kChunkSize, props)]
           \<and> ValidateFull batch = None)"
proof -
  from run obtain k where k: "k < length (batch_steps dir_fn props batch n)"
    and tr: "tr = map succeeded (take k (batch_steps dir_fn props batch n))
                  @ [(batch_steps dir_fn props batch n ! k, Some err)]"
    by (rule stopped_run_failed_cases)
  from k have "k < 7" by (simp add: batch_steps_def)
  then consider "k = 0" | "k = 1" | "k = 2" | "k = 3" | "k = 4" | "k = 5" | "k = 6"
    by linarith
  then show ?thesis
  proof cases
    case 1
    then show ?thesis using tr by (simp add: batch_steps_def handed_to_writer_def)
  next
    case 2
    then show ?thesis using tr
      by (simp add: batch_steps_def succeeded_def handed_to_writer_def)
  next
    case 3
    then show ?thesis using tr
      by (simp add: batch_steps_def succeeded_def handed_to_writer_def)
  next
    case 4
    then show ?thesis using tr
      by (simp add: batch_steps_def succeeded_def handed_to_writer_def)
  next
    case 5
    then show ?thesis using tr
      by (simp add: batch_steps_def succeeded_def handed_to_writer_def)
  next
    case 6
    then have tr': "tr = map succeeded (take 5 (batch_steps dir_fn props batch n))
                  @ [(batch_steps dir_fn props batch n ! 5, Some err)]"
      using tr by simp
    have "(ValidateFull_step batch, None) \<in> set tr"
      by (subst tr') (simp add: batch_steps_def succeeded_def)
    with f have "ValidateFull batch = None" by (rule faithful_batch_valid)
    then show ?thesis
      by (subst (1 2 3) tr') (simp add: batch_steps_def succeeded_def handed_to_writer_def)
  next
    case 7
    then have tr': "tr = map succeeded (take 6 (batch_steps dir_fn props batch n))
                  @ [(batch_steps dir_fn props batch n ! 6, Some err)]"
      using tr by simp
    have "(ValidateFull_step batch, None) \<in> set tr"
      by (subst tr') (simp add: batch_steps_def succeeded_def)
    with f have "ValidateFull batch = None" by (rule faithful_batch_valid)
    then show ?thesis
      by (subst (1 2 3) tr') (simp add: batch_steps_def succeeded_def handed_to_writer_def)
  qed
qed

text \<open>A run of one iteration in which every step succeeded.\<close>

lemma batch_success:
  assumes v: "ValidateFull batch = None"
  shows "gate_ok v (map succeeded (batch_steps dir_fn props batch n) @ rest) = gate_ok None rest"
    and "handed_to_writer (map succeeded (batch_steps dir_fn props batch n))
           = [(Join dir_fn (''pq-table-'' @ to_string n), table_of batch, kChunkSize, props)]"
  using v by (simp_all add: batch_steps_def succeeded_def handed_to_writer_def)

subsection \<open>The validation gate in the loop\<close>

lemma stopped_run_no_steps: "stopped_run [] tr st \<Longrightarrow> tr = [] \<and> st = None"
  by (cases st) (auto simp: stopped_run_def)

lemma loop_gate:
  assumes "stopped_run (loop_steps dir_fn props batches n) tr st" and "faithful tr"
  shows "gate_ok v tr
    \<and> (\<exists>k \<le> length batches.
          handed_to_writer tr = take k (loop_writes dir_fn props batches n)
          \<and> (\<forall>b \<in> set (take k batches). ValidateFull b = None)
          \<and> (st = None \<longrightarrow> k = length batches))"
  using assms
proof (induction batches arbitrary: n tr v)
  case Nil
  then have "tr = []" "st = None" using stopped_run_no_steps by auto
  then show ?case by (simp add: handed_to_writer_def)
next
  case (Cons batch rest)
  let ?w = "(Join dir_fn (''pq-table-'' @ to_string n), table_of batch, kChunkSize, props)"
  from Cons.prems(1)
  have "stopped_run (batch_steps dir_fn props batch n @ loop_steps dir_fn props rest (n + 1)) tr st"
    by simp
  then consider
    (stop) err where "st = Some err" "stopped_run (batch_steps dir_fn props batch n) tr (Some err)"
    | (continue) tr2 where "tr = map succeeded (batch_steps dir_fn props batch n) @ tr2"
        "stopped_run (loop_steps dir_fn props rest (n + 1)) tr2 st"
    using stopped_run_appendD by blast
  then show ?case
  proof cases
    case stop
    from batch_failure [OF stop(2) Cons.prems(2), of v]
    have g: "gate_ok v tr"
      and h: "handed_to_writer tr = [] \<or> handed_to_writer tr = [?w] \<and> ValidateFull batch = None"
      by blast+
    from h show ?thesis
    proof
      assume "handed_to_writer tr = []"
      then have "handed_to_writer tr = take 0 (loop_writes dir_fn props (batch # rest) n)
          \<and> (\<forall>b \<in> set (take 0 (batch # rest)). ValidateFull b = None)
          \<and> (st = None \<longrightarrow> 0 = length (batch # rest))"
        using stop(1) by simp
      then show ?thesis using g by blast
    next
      assume "handed_to_writer tr = [?w] \<and> ValidateFull batch = None"
      then have "handed_to_writer tr = take 1 (loop_writes dir_fn props (batch # rest) n)
          \<and> (\<forall>b \<in> set (take 1 (batch # rest)). ValidateFull b = None)
          \<and> (st = None \<longrightarrow> 1 = length (batch # rest))"
        using stop(1) by simp
      moreover have "1 \<le> length (batch # rest)" by simp
      ultimately show ?thesis using g by blast
    qed
  next
    case continue
    have f1: "faithful (map succeeded (batch_steps dir_fn props batch n))" and f2: "faithful tr2"
      using Cons.prems(2) continue(1) by (simp_all add: faithful_append)
    have "(ValidateFull_step batch, None) \<in> set (map succeeded (batch_steps dir_fn props batch n))"
      by (simp add: batch_steps_def succeeded_def)
    with f1 have valid: "ValidateFull batch = None" by (rule faithful_batch_valid)
    from Cons.IH [OF continue(2) f2, of None] obtain k where
      g2: "gate_ok None tr2" and k: "k \<le> length rest"
      and h2: "handed_to_writer tr2 = take k (loop_writes dir_fn props rest (n + 1))"
      and v2: "\<forall>b \<in> set (take k rest). ValidateFull b = None"
      and s2: "st = None \<longrightarrow> k = length rest"
      by blast
    have "gate_ok v tr" using g2 by (simp add: continue(1) batch_success(1) [OF valid])
    moreover have "handed_to_writer tr = take (Suc k) (loop_writes dir_fn props (batch # rest) n)"
      by (simp add: continue(1) handed_to_writer_append batch_success(2) [OF valid] h2)
    moreover have "\<forall>b \<in> set (take (Suc k) (batch # rest)). ValidateFull b = None"
      using valid v2 by simp
    moreover have "st = None \<longrightarrow> Suc k = length (batch # rest)" using s2 by simp
    moreover have "Suc k \<le> length (batch # rest)" using k by simp
    ultimately show ?thesis by blast
  qed
qed

lemma loop_writes_take:
  assumes "w \<in> set (take k (loop_writes dir_fn props batches n))"
  shows "\<exists>b \<in> set (take k batches).
           fst (snd w) = table_of b \<and> fst (snd (snd w)) = kChunkSize \<and> snd (snd (snd w)) = props"
  using assms
proof (induction batches arbitrary: n k)
  case Nil
  then show ?case by simp
next
  case (Cons batch rest)
  show ?case
  proof (cases k)
    case 0
    with Cons.prems show ?thesis by simp
  next
    case (Suc j)
    with Cons.prems have
      "w = (Join dir_fn (''pq-table-'' @ to_string n), table_of batch, kChunkSize, props)
       \<or> w \<in> set (take j (loop_writes dir_fn props rest (n + 1)))"
      by simp
    then show ?thesis
    proof
      assume "w = (Join dir_fn (''pq-table-'' @ to_string n), table_of batch, kChunkSize, props)"
      then show ?thesis using Suc by simp
    next
      assume "w \<in> set (take j (loop_writes dir_fn props rest (n + 1)))"
      from Cons.IH [OF this] show ?thesis using Suc by auto
    qed
  qed
qed

lemma main_gate:
  assumes "stopped_run (main_steps out_dir batches) tr st" and "faithful tr"
  shows "gate_ok v tr
    \<and> (\<exists>k \<le> length batches.
          handed_to_writer tr = take k (loop_writes out_dir GetWriterProperties batches 1)
          \<and> (\<forall>b \<in> set (take k batches). ValidateFull b = None)
          \<and> (st = None \<longrightarrow> k = length batches))"
proof -
  let ?pre = "[FromString_step out_dir, CreateDir_step out_dir, Batches_step]"
  from assms(1)
  have "stopped_run (?pre @ loop_steps out_dir GetWriterProperties batches 1) tr st"
    by (simp add: main_steps_def)
  then consider
    (stop) err where "st = Some err" "stopped_run ?pre tr (Some err)"
    | (continue) tr2 where "tr = map succeeded ?pre @ tr2"
        "stopped_run (loop_steps out_dir GetWriterProperties batches 1) tr2 st"
    using stopped_run_appendD by blast
  then show ?thesis
  proof cases
    case stop
    from stop(2) obtain k where k: "k < length ?pre"
      and tr: "tr = map succeeded (take k ?pre) @ [(?pre ! k, Some err)]"
      by (rule stopped_run_failed_cases)
    from k have "k < 3" by simp
    then consider "k = 0" | "k = 1" | "k = 2" by linarith
    then have "gate_ok v tr \<and> handed_to_writer tr = []"
      using tr by cases (simp_all add: succeeded_def handed_to_writer_def)
    then have "gate_ok v tr
       \<and> handed_to_writer tr = take 0 (loop_writes out_dir GetWriterProperties batches 1)
       \<and> (\<forall>b \<in> set (take 0 batches). ValidateFull b = None)
       \<and> (st = None \<longrightarrow> 0 = length batches)"
      using stop(1) by simp
    then show ?thesis by blast
  next
    case continue
    have f2: "faithful tr2" using assms(2) unfolding continue(1) faithful_append by blast
    have "gate_ok v tr = gate_ok v tr2" "handed_to_writer tr = handed_to_writer tr2"
      by (simp_all add: continue(1) succeeded_def handed_to_writer_def)
    then show ?thesis using loop_gate [OF continue(2) f2, of v] by simp
  qed
qed

lemma generated_member:
  "b \<in> set (generated ops) \<Longrightarrow> ExampleBatch1 ops = Inr b"
  by (auto simp: generated_def Batches_def split: sum.splits)

text \<open>
  C3. Every table handed to the writer is the table of the batch whose validation
  succeeded last before it, in the same loop iteration, with no other validation or write
  in between. The tables handed to the writer are those of an initial stretch of the
  batches, all of them valid: when validation reports a violation for a batch, neither
  that batch nor any later one is handed to the writer.
\<close>

theorem validation_gate:
  "(\<forall>tr0 r tr1. write_batches env dir_fn props batches n tr0 = (r, tr1) \<longrightarrow>
      (\<exists>new k. tr1 = tr0 @ new \<and> gate_ok None new \<and> k \<le> length batches
         \<and> handed_to_writer new = take k (loop_writes dir_fn props batches n)
         \<and> (\<forall>b \<in> set (take k batches). ValidateFull b = None)
         \<and> (\<forall>i < length batches. ValidateFull (batches ! i) \<noteq> None \<longrightarrow> k \<le> i)))
   \<and> (\<forall>r tr. DoMain ops env out_dir [] = (r, tr) \<longrightarrow>
        gate_ok None tr
        \<and> (\<forall>w \<in> set (handed_to_writer tr).
              \<exists>batch. ExampleBatch1 ops = Inr batch \<and> ValidateFull batch = None
                 \<and> fst (snd w) = table_of batch))"
proof (intro conjI allI impI)
  fix tr0 r tr1
  assume "write_batches env dir_fn props batches n tr0 = (r, tr1)"
  from performsD(1) [OF write_batches_performs this] obtain new where
    new: "tr1 = tr0 @ new" and sr: "stopped_run (loop_steps dir_fn props batches n) new (status_of r)"
    and f: "faithful new"
    by blast
  from loop_gate [OF sr f, of None] obtain k where
    g: "gate_ok None new" and k: "k \<le> length batches"
    and h: "handed_to_writer new = take k (loop_writes dir_fn props batches n)"
    and v: "\<forall>b \<in> set (take k batches). ValidateFull b = None"
    by blast
  have "k \<le> i" if i: "i < length batches" and bad: "ValidateFull (batches ! i) \<noteq> None" for i
  proof (rule ccontr)
    assume "\<not> k \<le> i"
    then have "i < k" by simp
    then have "batches ! i \<in> set (take k batches)"
      using i k by (metis length_take min.absorb2 nth_mem nth_take)
    with v have "ValidateFull (batches ! i) = None" by (rule bspec)
    with bad show False by simp
  qed
  with new g k h v show "\<exists>new k. tr1 = tr0 @ new \<and> gate_ok None new \<and> k \<le> length batches
         \<and> handed_to_writer new = take k (loop_writes dir_fn props batches n)
         \<and> (\<forall>b \<in> set (take k batches). ValidateFull b = None)
         \<and> (\<forall>i < length batches. ValidateFull (batches ! i) \<noteq> None \<longrightarrow> k \<le> i)"
    by blast
next
  fix r tr
  assume run: "DoMain ops env out_dir [] = (r, tr)"
  from performsD(1) [OF DoMain_performs run]
  have sr: "stopped_run (main_steps out_dir (generated ops)) tr (status_of r)" and f: "faithful tr"
    by simp_all
  from main_gate [OF sr f, of None] obtain k where
    g: "gate_ok None tr"
    and h: "handed_to_writer tr = take k (loop_writes out_dir GetWriterProperties (generated ops) 1)"
    and v: "\<forall>b \<in> set (take k (generated ops)). ValidateFull b = None"
    by blast
  show "gate_ok None tr" by (rule g)
  show "\<forall>w \<in> set (handed_to_writer tr).
              \<exists>batch. ExampleBatch1 ops = Inr batch \<and> ValidateFull batch = None
                 \<and> fst (snd w) = table_of batch"
  proof
    fix w
    assume "w \<in> set (handed_to_writer tr)"
    then have "w \<in> set (take k (loop_writes out_dir GetWriterProperties (generated ops) 1))"
      using h by simp
    from loop_writes_take [OF this] obtain b where
      b: "b \<in> set (take k (generated ops))" "fst (snd w) = table_of b"
      by blast
    have "b \<in> set (generated ops)" using b(1) by (rule in_set_takeD)
    then have "ExampleBatch1 ops = Inr b" by (rule generated_member)
    moreover have "ValidateFull b = None" using v b(1) by blast
    ultimately show "\<exists>batch. ExampleBatch1 ops = Inr batch \<and> ValidateFull batch = None
                 \<and> fst (snd w) = table_of batch"
      using b(2) by blast
  qed
qed

lemma broken_batch_run:
  "write_batches env_ok ''out'' GetWriterProperties [small_batch, broken_batch, small_batch] 1 []
   = (Inl (Error BatchValidationError ''values length''),
      map succeeded (batch_steps ''out'' GetWriterProperties small_batch 1)
      @ [(ValidateFull_step broken_batch, Some (Error BatchValidationError ''values length''))])"
  by (simp add: write_batch_def bind_def computed_def of_status_def FromRecordBatches_single
      sample_name_def ext_env_ok cerr_def return_def
      ValidateFull_small_batch ValidateFull_broken_batch batch_steps_def succeeded_def)

theorem validation_gate_witness:
  "\<exists>tr. write_batches env_ok ''out'' GetWriterProperties
           [small_batch, broken_batch, small_batch] 1 []
         = (Inl (Error BatchValidationError ''values length''), tr)
     \<and> ValidateFull ([small_batch, broken_batch, small_batch] ! 1) \<noteq> None
     \<and> gate_ok None tr
     \<and> handed_to_writer tr
         = [(''out/pq-table-1'', table_of small_batch, kChunkSize, GetWriterProperties)]"
proof -
  define tr where "tr = map succeeded (batch_steps ''out'' GetWriterProperties small_batch 1)
      @ [(ValidateFull_step broken_batch, Some (Error BatchValidationError ''values length''))]"
  have run: "write_batches env_ok ''out'' GetWriterProperties
           [small_batch, broken_batch, small_batch] 1 []
         = (Inl (Error BatchValidationError ''values length''), tr)"
    unfolding tr_def by (rule broken_batch_run)
  note vg = validation_gate [of env_ok "''out''" GetWriterProperties
      "[small_batch, broken_batch, small_batch]" 1 lcg_ops "''out''"]
  from vg [THEN conjunct1, rule_format, OF run]
  obtain new k where new: "tr = [] @ new" and g: "gate_ok None new"
    and h: "handed_to_writer new
        = take k (loop_writes ''out'' GetWriterProperties [small_batch, broken_batch, small_batch] 1)"
    and bound: "\<forall>i < length [small_batch, broken_batch, small_batch].
        ValidateFull ([small_batch, broken_batch, small_batch] ! i) \<noteq> None \<longrightarrow> k \<le> i"
    by blast
  have eq: "new = tr" using new by (simp only: append_Nil)
  have bad: "ValidateFull ([small_batch, broken_batch, small_batch] ! 1) \<noteq> None"
    by (simp add: ValidateFull_broken_batch)
  have hw: "handed_to_writer tr
         = [(''out/pq-table-1'', table_of small_batch, kChunkSize, GetWriterProperties)]"
    by (simp add: tr_def handed_to_writer_def batch_steps_def succeeded_def to_string_1 Join_def)
  have gt: "gate_ok None tr" using g unfolding eq .
  from run bad gt hw show ?thesis by (intro exI [of _ tr] conjI)
qed

subsection \<open>What DoMain hands to the writer\<close>

lemma DoMain_handed:
  assumes run: "DoMain ops env out_dir [] = (r, tr)" and w: "w \<in> set (handed_to_writer tr)"
  shows "\<exists>batch. ExampleBatch1 ops = Inr batch \<and> ValidateFull batch = None
           \<and> snd w = (table_of batch, kChunkSize, GetWriterProperties)"
proof -
  from performsD(1) [OF DoMain_performs run]
  have sr: "stopped_run (main_steps out_dir (generated ops)) tr (status_of r)" and f: "faithful tr"
    by simp_all
  from main_gate [OF sr f, of None] obtain k where
    h: "handed_to_writer tr = take k (loop_writes out_dir GetWriterProperties (generated ops) 1)"
    and v: "\<forall>b \<in> set (take k (generated ops)). ValidateFull b = None"
    by blast
  from w h have "w \<in> set (take k (loop_writes out_dir GetWriterProperties (generated ops) 1))"
    by simp
  from loop_writes_take [OF this] obtain b where
    b: "b \<in> set (take k (generated ops))" "fst (snd w) = table_of b"
       "fst (snd (snd w)) = kChunkSize" "snd (snd (snd w)) = GetWriterProperties"
    by blast
  have "b \<in> set (generated ops)" using b(1) by (rule in_set_takeD)
  then have "ExampleBatch1 ops = Inr b" by (rule generated_member)
  moreover from v b(1) have "ValidateFull b = None" by (rule bspec)
  moreover have "snd w = (table_of b, kChunkSize, GetWriterProperties)"
    using b(2,3,4) by (metis prod.collapse)
  ultimately show ?thesis by blast
qed

subsection \<open>The generated data depends on the draws from the seed only\<close>

lemma draw_same:
  assumes eq: "\<And>s. s \<in> R \<Longrightarrow> f1 s = f2 s" and closed: "\<And>s. s \<in> R \<Longrightarrow> snd (f1 s) \<in> R"
    and g: "g \<in> R"
  shows "draw f1 n g = draw f2 n g \<and> snd (draw f1 n g) \<in> R"
  using g
proof (induction n arbitrary: g)
  case 0
  then show ?case by simp
next
  case (Suc n)
  obtain x g1 where f1: "f1 g = (x, g1)" by (cases "f1 g")
  have f2: "f2 g = (x, g1)" using eq [OF Suc.prems] f1 by simp
  have g1: "g1 \<in> R" using closed [OF Suc.prems] f1 by simp
  from Suc.IH [OF g1] have ih1: "draw f1 n g1 = draw f2 n g1"
    and ih2: "snd (draw f1 n g1) \<in> R"
    by blast+
  obtain xs g2 where d1: "draw f1 n g1 = (xs, g2)" by (cases "draw f1 n g1")
  have d2: "draw f2 n g1 = (xs, g2)" using ih1 d1 by simp
  have g2: "g2 \<in> R" using ih2 d1 by simp
  show ?case using f1 f2 d1 d2 g2 by simp
qed

lemma same_draws_int:
  assumes "same_draws ops1 ops2 seed" and "g \<in> states_from ops1 seed"
  shows "draw (\<lambda>s. uniform_int ops1 s lo hi) n g = draw (\<lambda>s. uniform_int ops2 s lo hi) n g
    \<and> snd (draw (\<lambda>s. uniform_int ops1 s lo hi) n g) \<in> states_from ops1 seed"
proof (rule draw_same [where R = "states_from ops1 seed"])
  fix s assume "s \<in> states_from ops1 seed"
  then show "uniform_int ops1 s lo hi = uniform_int ops2 s lo hi"
    using assms(1) by (simp add: same_draws_def)
next
  fix s assume "s \<in> states_from ops1 seed"
  then show "snd (uniform_int ops1 s lo hi) \<in> states_from ops1 seed"
    by (rule states_from.after_int)
qed (rule assms(2))

lemma same_draws_real:
  assumes "same_draws ops1 ops2 seed" and "g \<in> states_from ops1 seed"
  shows "draw (\<lambda>s. uniform_real ops1 s lo hi) n g = draw (\<lambda>s. uniform_real ops2 s lo hi) n g
    \<and> snd (draw (\<lambda>s. uniform_real ops1 s lo hi) n g) \<in> states_from ops1 seed"
proof (rule draw_same [where R = "states_from ops1 seed"])
  fix s assume "s \<in> states_from ops1 seed"
  then show "uniform_real ops1 s lo hi = uniform_real ops2 s lo hi"
    using assms(1) by (simp add: same_draws_def)
next
  fix s assume "s \<in> states_from ops1 seed"
  then show "snd (uniform_real ops1 s lo hi) \<in> states_from ops1 seed"
    by (rule states_from.after_real)
qed (rule assms(2))

lemma same_draws_coin:
  assumes "same_draws ops1 ops2 seed" and "g \<in> states_from ops1 seed"
  shows "draw (\<lambda>s. bernoulli ops1 s p) n g = draw (\<lambda>s. bernoulli ops2 s p) n g
    \<and> snd (draw (\<lambda>s. bernoulli ops1 s p) n g) \<in> states_from ops1 seed"
proof (rule draw_same [where R = "states_from ops1 seed"])
  fix s assume "s \<in> states_from ops1 seed"
  then show "bernoulli ops1 s p = bernoulli ops2 s p"
    using assms(1) by (simp add: same_draws_def)
next
  fix s assume "s \<in> states_from ops1 seed"
  then show "snd (bernoulli ops1 s p) \<in> states_from ops1 seed"
    by (rule states_from.after_coin)
qed (rule assms(2))

lemma same_draws_Numeric:
  assumes sd: "same_draws ops1 ops2 seed" and g: "g \<in> states_from ops1 seed"
  shows "Numeric ops1 t sz lo hi p g = Numeric ops2 t sz lo hi p g
    \<and> snd (Numeric ops1 t sz lo hi p g) \<in> states_from ops1 seed"
proof -
  obtain vals g1 where v1: "draw (\<lambda>s. uniform_int ops1 s lo hi) sz g = (vals, g1)"
    by (cases "draw (\<lambda>s. uniform_int ops1 s lo hi) sz g")
  note r_v2 = same_draws_int [OF sd g, of lo hi sz]
  have v2: "draw (\<lambda>s. uniform_int ops2 s lo hi) sz g = (vals, g1)"
    using r_v2 [THEN conjunct1] v1 by simp
  have g1: "g1 \<in> states_from ops1 seed"
    using r_v2 [THEN conjunct2] v1 by simp
  obtain nulls g2 where n1: "draw (\<lambda>s. bernoulli ops1 s p) sz g1 = (nulls, g2)"
    by (cases "draw (\<lambda>s. bernoulli ops1 s p) sz g1")
  note r_n2 = same_draws_coin [OF sd g1, of p sz]
  have n2: "draw (\<lambda>s. bernoulli ops2 s p) sz g1 = (nulls, g2)"
    using r_n2 [THEN conjunct1] n1 by simp
  have g2: "g2 \<in> states_from ops1 seed"
    using r_n2 [THEN conjunct2] n1 by simp
  show ?thesis by (simp add: Numeric_def v1 v2 n1 n2 g2)
qed

lemma same_draws_Float64:
  assumes sd: "same_draws ops1 ops2 seed" and g: "g \<in> states_from ops1 seed"
  shows "Float64 ops1 sz lo hi p g = Float64 ops2 sz lo hi p g
    \<and> snd (Float64 ops1 sz lo hi p g) \<in> states_from ops1 seed"
proof -
  obtain vals g1 where v1: "draw (\<lambda>s. uniform_real ops1 s lo hi) sz g = (vals, g1)"
    by (cases "draw (\<lambda>s. uniform_real ops1 s lo hi) sz g")
  note r_v2 = same_draws_real [OF sd g, of lo hi sz]
  have v2: "draw (\<lambda>s. uniform_real ops2 s lo hi) sz g = (vals, g1)"
    using r_v2 [THEN conjunct1] v1 by simp
  have g1: "g1 \<in> states_from ops1 seed"
    using r_v2 [THEN conjunct2] v1 by simp
  obtain nulls g2 where n1: "draw (\<lambda>s. bernoulli ops1 s p) sz g1 = (nulls, g2)"
    by (cases "draw (\<lambda>s. bernoulli ops1 s p) sz g1")
  note r_n2 = same_draws_coin [OF sd g1, of p sz]
  have n2: "draw (\<lambda>s. bernoulli ops2 s p) sz g1 = (nulls, g2)"
    using r_n2 [THEN conjunct1] n1 by simp
  have g2: "g2 \<in> states_from ops1 seed"
    using r_n2 [THEN conjunct2] n1 by simp
  show ?thesis by (simp add: Float64_def v1 v2 n1 n2 g2)
qed

lemma same_draws_random_string:
  assumes sd: "same_draws ops1 ops2 seed" and g: "g \<in> states_from ops1 seed"
  shows "random_string ops1 lo hi g = random_string ops2 lo hi g
    \<and> snd (random_string ops1 lo hi g) \<in> states_from ops1 seed"
proof -
  obtain len g1 where l1: "uniform_int ops1 g lo hi = (len, g1)"
    by (cases "uniform_int ops1 g lo hi")
  have l2: "uniform_int ops2 g lo hi = (len, g1)"
    using sd g l1 by (simp add: same_draws_def)
  have g1: "g1 \<in> states_from ops1 seed"
    using states_from.after_int [OF g, of lo hi] l1 by simp
  obtain codes g2 where c1: "draw (\<lambda>s. uniform_int ops1 s 65 122) (nat len) g1 = (codes, g2)"
    by (cases "draw (\<lambda>s. uniform_int ops1 s 65 122) (nat len) g1")
  note r_c2 = same_draws_int [OF sd g1, of 65 122 "nat len"]
  have c2: "draw (\<lambda>s. uniform_int ops2 s 65 122) (nat len) g1 = (codes, g2)"
    using r_c2 [THEN conjunct1] c1 by simp
  have g2: "g2 \<in> states_from ops1 seed"
    using r_c2 [THEN conjunct2] c1 by simp
  show ?thesis by (simp add: random_string_def l1 l2 c1 c2 g2)
qed

lemma same_draws_String:
  assumes sd: "same_draws ops1 ops2 seed" and g: "g \<in> states_from ops1 seed"
  shows "String ops1 sz lo hi p g = String ops2 sz lo hi p g
    \<and> snd (String ops1 sz lo hi p g) \<in> states_from ops1 seed"
proof -
  have strings: "draw (random_string ops1 lo hi) sz g = draw (random_string ops2 lo hi) sz g
      \<and> snd (draw (random_string ops1 lo hi) sz g) \<in> states_from ops1 seed"
  proof (rule draw_same [where R = "states_from ops1 seed"])
    fix s assume "s \<in> states_from ops1 seed"
    then show "random_string ops1 lo hi s = random_string ops2 lo hi s"
      by (rule same_draws_random_string [OF sd, THEN conjunct1])
  next
    fix s assume "s \<in> states_from ops1 seed"
    then show "snd (random_string ops1 lo hi s) \<in> states_from ops1 seed"
      by (rule same_draws_random_string [OF sd, THEN conjunct2])
  qed (rule g)
  obtain vals g1 where v1: "draw (random_string ops1 lo hi) sz g = (vals, g1)"
    by (cases "draw (random_string ops1 lo hi) sz g")
  with strings have v2: "draw (random_string ops2 lo hi) sz g = (vals, g1)"
    and g1: "g1 \<in> states_from ops1 seed" by simp_all
  obtain nulls g2 where n1: "draw (\<lambda>s. bernoulli ops1 s p) sz g1 = (nulls, g2)"
    by (cases "draw (\<lambda>s. bernoulli ops1 s p) sz g1")
  note r_n2 = same_draws_coin [OF sd g1, of p sz]
  have n2: "draw (\<lambda>s. bernoulli ops2 s p) sz g1 = (nulls, g2)"
    using r_n2 [THEN conjunct1] n1 by simp
  have g2: "g2 \<in> states_from ops1 seed"
    using r_n2 [THEN conjunct2] n1 by simp
  show ?thesis by (simp add: String_def v1 v2 n1 n2 g2)
qed

lemma same_draws_Offsets:
  assumes sd: "same_draws ops1 ops2 seed" and g: "g \<in> states_from ops1 seed"
  shows "Offsets ops1 sz lo hi g = Offsets ops2 sz lo hi g
    \<and> snd (Offsets ops1 sz lo hi g) \<in> states_from ops1 seed"
proof -
  obtain vals g1 where v1: "draw (\<lambda>s. uniform_int ops1 s lo hi) sz g = (vals, g1)"
    by (cases "draw (\<lambda>s. uniform_int ops1 s lo hi) sz g")
  note r_v2 = same_draws_int [OF sd g, of lo hi sz]
  have v2: "draw (\<lambda>s. uniform_int ops2 s lo hi) sz g = (vals, g1)"
    using r_v2 [THEN conjunct1] v1 by simp
  have g1: "g1 \<in> states_from ops1 seed"
    using r_v2 [THEN conjunct2] v1 by simp
  show ?thesis by (simp add: Offsets_def v1 v2 g1)
qed

lemma same_draws_ExampleBatch1:
  assumes sd: "same_draws ops1 ops2 42"
  shows "ExampleBatch1 ops1 = ExampleBatch1 ops2"
proof -
  let ?R = "states_from ops1 42"
  have g0: "42 \<in> ?R" by (rule states_from.start)
  obtain a g1 where a1: "Int16 ops1 (nat kBatchSize) (- 10000) 10000 0.2 42 = (a, g1)"
    by (cases "Int16 ops1 (nat kBatchSize) (- 10000) 10000 0.2 42")
  note r_a2 = same_draws_Numeric [OF sd g0, of int16 "nat kBatchSize" "- 10000" 10000 "0.2"]
  have a2: "Int16 ops2 (nat kBatchSize) (- 10000) 10000 0.2 42 = (a, g1)"
    using r_a2 [THEN conjunct1] a1 by (simp add: Int16_def)
  have g1: "g1 \<in> ?R"
    using r_a2 [THEN conjunct2] a1 by (simp add: Int16_def)
  obtain b g2 where b1: "Float64 ops1 (nat kBatchSize) (- 10000000000) 10000000000 0.0 g1 = (b, g2)"
    by (cases "Float64 ops1 (nat kBatchSize) (- 10000000000) 10000000000 0.0 g1")
  note r_b2 = same_draws_Float64 [OF sd g1, of "nat kBatchSize" "- 10000000000" 10000000000 "0.0"]
  have b2: "Float64 ops2 (nat kBatchSize) (- 10000000000) 10000000000 0.0 g1 = (b, g2)"
    using r_b2 [THEN conjunct1] b1 by simp
  have g2: "g2 \<in> ?R"
    using r_b2 [THEN conjunct2] b1 by simp
  obtain c g3 where c1: "String ops1 (nat kBatchSize) 0 3 0.2 g2 = (c, g3)"
    by (cases "String ops1 (nat kBatchSize) 0 3 0.2 g2")
  note r_c2 = same_draws_String [OF sd g2, of "nat kBatchSize" 0 3 "0.2"]
  have c2: "String ops2 (nat kBatchSize) 0 3 0.2 g2 = (c, g3)"
    using r_c2 [THEN conjunct1] c1 by simp
  have g3: "g3 \<in> ?R"
    using r_c2 [THEN conjunct2] c1 by simp
  obtain vals g4 where v1: "Int64 ops1 (nat (kBatchSize * 10)) (- 10000) 10000 0.2 g3 = (vals, g4)"
    by (cases "Int64 ops1 (nat (kBatchSize * 10)) (- 10000) 10000 0.2 g3")
  note r_v2 = same_draws_Numeric [OF sd g3, of int64 "nat (kBatchSize * 10)" "- 10000" 10000 "0.2"]
  have v2: "Int64 ops2 (nat (kBatchSize * 10)) (- 10000) 10000 0.2 g3 = (vals, g4)"
    using r_v2 [THEN conjunct1] v1 by (simp add: Int64_def)
  have g4: "g4 \<in> ?R"
    using r_v2 [THEN conjunct2] v1 by (simp add: Int64_def)
  obtain offsets g5 where o1:
    "Offsets ops1 (nat (kBatchSize + 1)) 0 (int32_cast (int (array_length vals))) g4 = (offsets, g5)"
    by (cases "Offsets ops1 (nat (kBatchSize + 1)) 0 (int32_cast (int (array_length vals))) g4")
  note r_o2 = same_draws_Offsets [OF sd g4, of "nat (kBatchSize + 1)" 0 "int32_cast (int (array_length vals))"]
  have o2: "Offsets ops2 (nat (kBatchSize + 1)) 0 (int32_cast (int (array_length vals))) g4 = (offsets, g5)"
    using r_o2 [THEN conjunct1] o1 by simp
  have g5: "g5 \<in> ?R"
    using r_o2 [THEN conjunct2] o1 by simp
  obtain no_dict g6 where n1: "String ops1 (nat kBatchSize) 0 30 0.2 g5 = (no_dict, g6)"
    by (cases "String ops1 (nat kBatchSize) 0 30 0.2 g5")
  note r_n2 = same_draws_String [OF sd g5, of "nat kBatchSize" 0 30 "0.2"]
  have n2: "String ops2 (nat kBatchSize) 0 30 0.2 g5 = (no_dict, g6)"
    using r_n2 [THEN conjunct1] n1 by simp
  have "ExampleBatch1 ops1 =
    (case FromArrays offsets vals of Inl err \<Rightarrow> Inl err | Inr d \<Rightarrow>
     case MakeArrayFromScalar (Int16Scalar 42) (nat kBatchSize) of Inl err \<Rightarrow> Inl err | Inr e \<Rightarrow>
       Inr (RecordBatch_Make
             (WithMetadata
               (schema [field ''a'' (type_of a), field ''b'' (type_of b),
                        field ''c'' (type_of c), field ''d'' (type_of d),
                        field ''e'' (type_of e), field ''no_dict'' (type_of no_dict)])
               (key_value_metadata [''key1'', ''key2''] [''value1'', '''']))
             (nat kBatchSize) [a, b, c, d, e, no_dict]))"
    unfolding ExampleBatch1_def a1 b1 c1 v1 o1 n1 prod.case ..
  moreover have "ExampleBatch1 ops2 =
    (case FromArrays offsets vals of Inl err \<Rightarrow> Inl err | Inr d \<Rightarrow>
     case MakeArrayFromScalar (Int16Scalar 42) (nat kBatchSize) of Inl err \<Rightarrow> Inl err | Inr e \<Rightarrow>
       Inr (RecordBatch_Make
             (WithMetadata
               (schema [field ''a'' (type_of a), field ''b'' (type_of b),
                        field ''c'' (type_of c), field ''d'' (type_of d),
                        field ''e'' (type_of e), field ''no_dict'' (type_of no_dict)])
               (key_value_metadata [''key1'', ''key2''] [''value1'', '''']))
             (nat kBatchSize) [a, b, c, d, e, no_dict]))"
    unfolding ExampleBatch1_def a2 b2 c2 v2 o2 n2 prod.case ..
  ultimately show ?thesis by simp
qed

lemma states_from_lcg_ops: "s \<in> states_from lcg_ops 42 \<Longrightarrow> s < 2147483648"
  by (induction rule: states_from.induct) (simp_all add: lcg_ops_def lcg_next_def)

lemma same_draws_lcg_ops: "same_draws lcg_ops lcg_ops_elsewhere 42"
  unfolding same_draws_def
proof (intro ballI conjI allI)
  fix s lo hi
  assume "s \<in> states_from lcg_ops 42"
  then have s: "s < 2147483648" by (rule states_from_lcg_ops)
  show "uniform_int lcg_ops s lo hi = uniform_int lcg_ops_elsewhere s lo hi"
    using s by (simp add: lcg_ops_elsewhere_def)
next
  fix s lo hi
  assume "s \<in> states_from lcg_ops 42"
  then have s: "s < 2147483648" by (rule states_from_lcg_ops)
  show "uniform_real lcg_ops s lo hi = uniform_real lcg_ops_elsewhere s lo hi"
    using s by (simp add: lcg_ops_elsewhere_def)
next
  fix s p
  assume "s \<in> states_from lcg_ops 42"
  then have s: "s < 2147483648" by (rule states_from_lcg_ops)
  show "bernoulli lcg_ops s p = bernoulli lcg_ops_elsewhere s p"
    using s by (simp add: lcg_ops_elsewhere_def)
qed

lemma lcg_ops_elsewhere_differs:
  "uniform_int lcg_ops 2147483648 0 1 \<noteq> uniform_int lcg_ops_elsewhere 2147483648 0 1"
  by (simp add: lcg_ops_elsewhere_def lcg_ops_def)

text \<open>
  C2. The generated column data is the same in every run with the same seed. Take two
  runs in which the engine makes the same draws in every state reachable from the seed
  42, and may behave differently everywhere else; the environments and the output
  directories of the two runs are arbitrary. Then \<open>ExampleBatch1\<close> returns the same
  result in both, with the same values, null bitmaps and list offsets in every column,
  and the tables handed to the writer in the two runs of \<open>DoMain\<close> are equal: their
  columns are the columns of that one batch.
\<close>

theorem same_data_in_every_run:
  assumes "same_draws ops1 ops2 42"
  shows "ExampleBatch1 ops1 = ExampleBatch1 ops2
    \<and> (\<forall>env1 env2 dir1 dir2 r1 tr1 r2 tr2 w1 w2.
          DoMain ops1 env1 dir1 [] = (r1, tr1) \<longrightarrow> DoMain ops2 env2 dir2 [] = (r2, tr2) \<longrightarrow>
          w1 \<in> set (handed_to_writer tr1) \<longrightarrow> w2 \<in> set (handed_to_writer tr2) \<longrightarrow>
          snd w1 = snd w2
          \<and> (\<exists>batch. ExampleBatch1 ops1 = Inr batch \<and> ExampleBatch1 ops2 = Inr batch
                \<and> table_chunks (fst (snd w1)) = [columns batch]
                \<and> table_chunks (fst (snd w2)) = [columns batch]))"
proof (intro conjI allI impI)
  show same: "ExampleBatch1 ops1 = ExampleBatch1 ops2"
    using assms by (rule same_draws_ExampleBatch1)
  fix env1 env2 dir1 dir2 r1 tr1 r2 tr2 w1 w2
  assume run1: "DoMain ops1 env1 dir1 [] = (r1, tr1)"
    and run2: "DoMain ops2 env2 dir2 [] = (r2, tr2)"
    and w1: "w1 \<in> set (handed_to_writer tr1)" and w2: "w2 \<in> set (handed_to_writer tr2)"
  from DoMain_handed [OF run1 w1] obtain b1 where
    b1: "ExampleBatch1 ops1 = Inr b1" "snd w1 = (table_of b1, kChunkSize, GetWriterProperties)"
    by blast
  from DoMain_handed [OF run2 w2] obtain b2 where
    b2: "ExampleBatch1 ops2 = Inr b2" "snd w2 = (table_of b2, kChunkSize, GetWriterProperties)"
    by blast
  have eq: "b1 = b2" using b1(1) b2(1) same by simp
  show "snd w1 = snd w2" using b1(2) b2(2) eq by simp
  have c1: "table_chunks (fst (snd w1)) = [columns b1]" using b1(2) by (simp add: table_of_def)
  have c2: "table_chunks (fst (snd w2)) = [columns b1]"
    using b2(2) eq by (simp add: table_of_def)
  have e2: "ExampleBatch1 ops2 = Inr b1" using b2(1) eq by simp
  from b1(1) e2 c1 c2
  show "\<exists>batch. ExampleBatch1 ops1 = Inr batch \<and> ExampleBatch1 ops2 = Inr batch
                \<and> table_chunks (fst (snd w1)) = [columns batch]
                \<and> table_chunks (fst (snd w2)) = [columns batch]"
    by (intro exI [of _ b1] conjI)
qed

lemma DoMain_write_fails:
  assumes "ExampleBatch1 ops = Inr batch"
  shows "handed_to_writer (snd (DoMain ops write_fails out_dir []))
     = [(Join out_dir (''pq-table-'' @ to_string 1), table_of batch, kChunkSize, GetWriterProperties)]"
proof -
  have b: "Batches ops = Inr [batch]" using assms by (simp add: Batches_Inr)
  have v: "ValidateFull batch = None" using assms by (rule ExampleBatch1_valid)
  show ?thesis
    by (simp add: DoMain_def bind_def ext_def write_fails_def env_failing_def computed_def b v
        write_batch_def of_status_def FromRecordBatches_single sample_name_def cerr_def
        return_def handed_to_writer_def)
qed

lemma DoMain_env_ok_handed:
  assumes "ExampleBatch1 ops = Inr batch"
  shows "handed_to_writer (snd (DoMain ops env_ok out_dir []))
     = [(Join out_dir (''pq-table-'' @ to_string 1), table_of batch, kChunkSize, GetWriterProperties)]"
  by (simp add: DoMain_env_ok [OF assms] main_steps_def batch_steps_def succeeded_def
      handed_to_writer_def)

theorem same_data_in_every_run_witness:
  "same_draws lcg_ops lcg_ops_elsewhere 42
   \<and> uniform_int lcg_ops 2147483648 0 1 \<noteq> uniform_int lcg_ops_elsewhere 2147483648 0 1
   \<and> ExampleBatch1 lcg_ops = ExampleBatch1 lcg_ops_elsewhere
   \<and> (\<exists>w1 w2. w1 \<in> set (handed_to_writer (snd (DoMain lcg_ops env_ok ''out'' [])))
        \<and> w2 \<in> set (handed_to_writer (snd (DoMain lcg_ops_elsewhere write_fails ''elsewhere'' [])))
        \<and> fst w1 = ''out/pq-table-1'' \<and> fst w2 = ''elsewhere/pq-table-1''
        \<and> snd w1 = snd w2)"
proof -
  note t = same_data_in_every_run [OF same_draws_lcg_ops]
  have same: "ExampleBatch1 lcg_ops = ExampleBatch1 lcg_ops_elsewhere"
    using t by (rule conjunct1)
  obtain batch where b: "ExampleBatch1 lcg_ops = Inr batch"
    using ExampleBatch1_succeeds [OF in_range_lcg_ops] ..
  have b': "ExampleBatch1 lcg_ops_elsewhere = Inr batch" using b same by simp
  define w1 where "w1 = (''out/pq-table-1'', table_of batch, kChunkSize, GetWriterProperties)"
  define w2 where "w2 = (''elsewhere/pq-table-1'', table_of batch, kChunkSize, GetWriterProperties)"
  have m1: "w1 \<in> set (handed_to_writer (snd (DoMain lcg_ops env_ok ''out'' [])))"
    by (simp add: DoMain_env_ok_handed [OF b] w1_def to_string_1 Join_def)
  have m2: "w2 \<in> set (handed_to_writer (snd (DoMain lcg_ops_elsewhere write_fails ''elsewhere'' [])))"
    by (simp add: DoMain_write_fails [OF b'] w2_def to_string_1 Join_def)
  have eq: "snd w1 = snd w2"
    using t [THEN conjunct2, rule_format, OF surjective_pairing surjective_pairing m1 m2]
    by (rule conjunct1)
  have f1: "fst w1 = ''out/pq-table-1''" and f2: "fst w2 = ''elsewhere/pq-table-1''"
    by (simp_all add: w1_def w2_def)
  from m1 m2 f1 f2 eq have "\<exists>w1 w2. w1 \<in> set (handed_to_writer (snd (DoMain lcg_ops env_ok ''out'' [])))
        \<and> w2 \<in> set (handed_to_writer (snd (DoMain lcg_ops_elsewhere write_fails ''elsewhere'' [])))
        \<and> fst w1 = ''out/pq-table-1'' \<and> fst w2 = ''elsewhere/pq-table-1''
        \<and> snd w1 = snd w2"
    by (intro exI [of _ w1] exI [of _ w2] conjI)
  with same_draws_lcg_ops lcg_ops_elsewhere_differs same show ?thesis by (intro conjI)
qed

subsection \<open>The canonical run\<close>

lemma split_rows_example: "split_rows 1000 375 = [375, 375, 250]"
  by code_simp

lemma DoMain_success_trace:
  assumes "DoMain ops env out_dir [] = (Inr (), tr)"
  shows "\<exists>batch. ExampleBatch1 ops = Inr batch
           \<and> tr = map succeeded (main_steps out_dir [batch])"
proof -
  from performsD(1) [OF DoMain_performs assms]
  have sr: "stopped_run (main_steps out_dir (generated ops)) tr None"
    by (simp add: status_of_def)
  from performsD(2) [OF DoMain_performs assms] obtain batches where
    "Batches ops = Inr batches" by blast
  then obtain batch where b: "ExampleBatch1 ops = Inr batch" "Batches ops = Inr [batch]"
    by (auto simp: Batches_Inr)
  then have "generated ops = [batch]" by (simp add: generated_def)
  with sr have "tr = map succeeded (main_steps out_dir [batch])"
    by (simp add: stopped_run_None(1))
  with b(1) show ?thesis by blast
qed

lemma example_batch_facts:
  assumes "ExampleBatch1 ops = Inr batch"
  shows "batch_schema batch = example_schema" and "num_rows batch = 1000"
proof -
  from ExampleBatch1_Inr [OF assms] obtain cols where
    "batch = \<lparr>batch_schema = example_schema, num_rows = nat kBatchSize, columns = cols\<rparr>"
    by blast
  then show "batch_schema batch = example_schema" and "num_rows batch = 1000"
    by (simp_all add: kBatchSize_def)
qed

text \<open>
  C1. The chunk size is \<open>1000 * 3 / 8 = 375\<close>. A run of \<open>DoMain\<close> that succeeds opens
  exactly one file, \<open>pq-table-1\<close> in the output directory, and writes to it the one
  example batch: a schema of 6 fields with two metadata entries (the first with the value
  \<open>value1\<close>, the second with the empty value) and 1000 rows in row groups of 375, 375
  and 250 rows. Such a run exists: with an engine whose draws stay in range and an
  environment in which every call succeeds, \<open>DoMain\<close> succeeds.
\<close>

theorem canonical_run:
  "kChunkSize = 1000 * 3 div 8 \<and> kChunkSize = 375
   \<and> (in_range ops \<longrightarrow> fst (DoMain ops env_ok out_dir []) = Inr ())
   \<and> (\<forall>tr. DoMain ops env out_dir [] = (Inr (), tr) \<longrightarrow>
        (\<exists>batch. ExampleBatch1 ops = Inr batch
           \<and> batch_schema batch = example_schema \<and> num_rows batch = 1000
           \<and> opened tr = [Join out_dir ''pq-table-1'']
           \<and> handed_to_writer tr
               = [(Join out_dir ''pq-table-1'', table_of batch, 375, GetWriterProperties)]
           \<and> files_written tr
               = [(Join out_dir ''pq-table-1'',
                   \<lparr>file_schema = example_schema, file_row_groups = [375, 375, 250],
                    file_no_dictionary = [''no_dict'']\<rparr>)]))
   \<and> length (schema_fields example_schema) = 6
   \<and> map snd (schema_metadata example_schema) = [''value1'', '''']
   \<and> sum_list [375, 375, 250 :: nat] = 1000"
proof (intro conjI allI impI)
  show "kChunkSize = 1000 * 3 div 8" by (simp add: kChunkSize_def kBatchSize_def)
  show "kChunkSize = 375" by (simp add: kChunkSize_def kBatchSize_def)
  show "length (schema_fields example_schema) = 6" by (simp add: example_schema_def)
  show "map snd (schema_metadata example_schema) = [''value1'', '''']"
    by (simp add: example_schema_def)
  show "sum_list [375, 375, 250 :: nat] = 1000" by simp
next
  assume "in_range ops"
  then obtain batch where "ExampleBatch1 ops = Inr batch"
    using ExampleBatch1_succeeds by blast
  then show "fst (DoMain ops env_ok out_dir []) = Inr ()" by (simp add: DoMain_env_ok)
next
  fix tr
  assume "DoMain ops env out_dir [] = (Inr (), tr)"
  from DoMain_success_trace [OF this] obtain batch where
    b: "ExampleBatch1 ops = Inr batch" and tr: "tr = map succeeded (main_steps out_dir [batch])"
    by blast
  note facts = example_batch_facts [OF b]
  have k: "kChunkSize = 375" by (simp add: kChunkSize_def kBatchSize_def)
  have o: "opened tr = [Join out_dir ''pq-table-1'']"
    by (simp add: tr main_steps_def batch_steps_def succeeded_def opened_def to_string_1)
  have h: "handed_to_writer tr
      = [(Join out_dir ''pq-table-1'', table_of batch, 375, GetWriterProperties)]"
    by (simp add: tr main_steps_def batch_steps_def succeeded_def handed_to_writer_def
        to_string_1 k)
  have wf: "written_file (table_of batch) 375 GetWriterProperties
      = \<lparr>file_schema = example_schema, file_row_groups = [375, 375, 250],
         file_no_dictionary = [''no_dict'']\<rparr>"
    by (simp add: written_file_def table_of_def facts split_rows_example example_schema_def
        dictionary_enabled_def GetWriterProperties_def disable_dictionary_def builder_default_def)
  have fw: "files_written tr
      = [(Join out_dir ''pq-table-1'',
          \<lparr>file_schema = example_schema, file_row_groups = [375, 375, 250],
           file_no_dictionary = [''no_dict'']\<rparr>)]"
    by (simp add: tr main_steps_def batch_steps_def succeeded_def files_written_def
        to_string_1 k wf)
  from b facts o h fw show "\<exists>batch. ExampleBatch1 ops = Inr batch
           \<and> batch_schema batch = example_schema \<and> num_rows batch = 1000
           \<and> opened tr = [Join out_dir ''pq-table-1'']
           \<and> handed_to_writer tr
               = [(Join out_dir ''pq-table-1'', table_of batch, 375, GetWriterProperties)]
           \<and> files_written tr
               = [(Join out_dir ''pq-table-1'',
                   \<lparr>file_schema = example_schema, file_row_groups = [375, 375, 250],
                    file_no_dictionary = [''no_dict'']\<rparr>)]"
    by blast
qed

theorem canonical_run_witness:
  "in_range lcg_ops
   \<and> (\<exists>tr. DoMain lcg_ops env_ok ''out'' [] = (Inr (), tr)
         \<and> opened tr = [''out/pq-table-1'']
         \<and> files_written tr
             = [(''out/pq-table-1'',
                 \<lparr>file_schema = example_schema, file_row_groups = [375, 375, 250],
                  file_no_dictionary = [''no_dict'']\<rparr>)])"
proof -
  note cr = canonical_run [of lcg_ops "''out''" env_ok]
  have "fst (DoMain lcg_ops env_ok ''out'' []) = Inr ()"
    using cr in_range_lcg_ops by blast
  then obtain tr where run: "DoMain lcg_ops env_ok ''out'' [] = (Inr (), tr)"
    by (metis prod.collapse)
  from cr [THEN conjunct2, THEN conjunct2, THEN conjunct2, THEN conjunct1, rule_format, OF run]
  have "opened tr = [Join ''out'' ''pq-table-1'']"
    and "files_written tr
             = [(Join ''out'' ''pq-table-1'',
                 \<lparr>file_schema = example_schema, file_row_groups = [375, 375, 250],
                  file_no_dictionary = [''no_dict'']\<rparr>)]"
    by blast+
  then have "opened tr = [''out/pq-table-1'']"
    and "files_written tr
             = [(''out/pq-table-1'',
                 \<lparr>file_schema = example_schema, file_row_groups = [375, 375, 250],
                  file_no_dictionary = [''no_dict'']\<rparr>)]"
    by (simp_all add: Join_def)
  with run in_range_lcg_ops show ?thesis by blast
qed

subsection \<open>File names\<close>

lemma assigned_names_append: "assigned_names (xs @ ys) = assigned_names xs @ assigned_names ys"
  by (simp add: assigned_names_def)

lemma opened_append: "opened (xs @ ys) = opened xs @ opened ys"
  by (simp add: opened_def)

lemma batch_failure_names:
  assumes run: "stopped_run (batch_steps dir_fn props batch n) tr (Some err)"
  shows "(assigned_names tr = [] \<and> opened tr = [])
    \<or> (assigned_names tr = [''pq-table-'' @ to_string n] \<and> opened tr = [])
    \<or> (assigned_names tr = [''pq-table-'' @ to_string n]
        \<and> opened tr = [Join dir_fn (''pq-table-'' @ to_string n)])"
proof -
  from run obtain k where k: "k < length (batch_steps dir_fn props batch n)"
    and tr: "tr = map succeeded (take k (batch_steps dir_fn props batch n))
                  @ [(batch_steps dir_fn props batch n ! k, Some err)]"
    by (rule stopped_run_failed_cases)
  from k have "k < 7" by (simp add: batch_steps_def)
  then consider "k = 0" | "k = 1" | "k = 2" | "k = 3" | "k = 4" | "k = 5" | "k = 6"
    by linarith
  then show ?thesis
    using tr
    by cases (simp_all add: batch_steps_def succeeded_def assigned_names_def opened_def)
qed

lemma batch_success_names:
  "assigned_names (map succeeded (batch_steps dir_fn props batch n)) = [''pq-table-'' @ to_string n]"
  "opened (map succeeded (batch_steps dir_fn props batch n))
     = [Join dir_fn (''pq-table-'' @ to_string n)]"
  by (simp_all add: batch_steps_def succeeded_def assigned_names_def opened_def)

lemma names_shift:
  "f n # map (\<lambda>i. f (n + 1 + int i)) [0..<m] = map (\<lambda>i. f (n + int i)) [0..<Suc m]"
proof -
  have "map (\<lambda>i. f (n + int i)) [0..<Suc m] = f (n + int 0) # map (\<lambda>i. f (n + int (Suc i))) [0..<m]"
    by (rule map_upt_Suc)
  moreover have "(\<lambda>i. f (n + int (Suc i))) = (\<lambda>i. f (n + 1 + int i))"
    by (rule ext) (simp add: add.assoc)
  ultimately show ?thesis by simp
qed

lemma loop_names:
  assumes "stopped_run (loop_steps dir_fn props batches n) tr st"
  shows "\<exists>m j. j \<le> m \<and> m \<le> length batches
     \<and> assigned_names tr = map (\<lambda>i. ''pq-table-'' @ to_string (n + int i)) [0..<m]
     \<and> opened tr = map (\<lambda>i. Join dir_fn (''pq-table-'' @ to_string (n + int i))) [0..<j]
     \<and> (st = None \<longrightarrow> j = length batches)"
  using assms
proof (induction batches arbitrary: n tr)
  case Nil
  then have "tr = []" "st = None" using stopped_run_no_steps by auto
  then have "(0::nat) \<le> 0 \<and> (0::nat) \<le> length ([] :: RecordBatch list)
     \<and> assigned_names tr = map (\<lambda>i. ''pq-table-'' @ to_string (n + int i)) [0..<0]
     \<and> opened tr = map (\<lambda>i. Join dir_fn (''pq-table-'' @ to_string (n + int i))) [0..<0]
     \<and> (st = None \<longrightarrow> 0 = length ([] :: RecordBatch list))"
    by (simp add: assigned_names_def opened_def)
  then show ?case by blast
next
  case (Cons batch rest)
  let ?name = "\<lambda>k. ''pq-table-'' @ to_string k"
  let ?path = "\<lambda>k. Join dir_fn (''pq-table-'' @ to_string k)"
  from Cons.prems
  have "stopped_run (batch_steps dir_fn props batch n @ loop_steps dir_fn props rest (n + 1)) tr st"
    by simp
  then consider
    (stop) err where "st = Some err" "stopped_run (batch_steps dir_fn props batch n) tr (Some err)"
    | (continue) tr2 where "tr = map succeeded (batch_steps dir_fn props batch n) @ tr2"
        "stopped_run (loop_steps dir_fn props rest (n + 1)) tr2 st"
    using stopped_run_appendD by blast
  then show ?case
  proof cases
    case stop
    from batch_failure_names [OF stop(2)] consider
      "assigned_names tr = []" "opened tr = []"
      | "assigned_names tr = [?name n]" "opened tr = []"
      | "assigned_names tr = [?name n]" "opened tr = [?path n]"
      by blast
    then show ?thesis
    proof cases
      case 1
      then have "(0::nat) \<le> 0 \<and> 0 \<le> length (batch # rest)
         \<and> assigned_names tr = map (\<lambda>i. ?name (n + int i)) [0..<0]
         \<and> opened tr = map (\<lambda>i. ?path (n + int i)) [0..<0]
         \<and> (st = None \<longrightarrow> 0 = length (batch # rest))"
        using stop(1) by simp
      then show ?thesis by blast
    next
      case 2
      then have "(0::nat) \<le> 1 \<and> 1 \<le> length (batch # rest)
         \<and> assigned_names tr = map (\<lambda>i. ?name (n + int i)) [0..<1]
         \<and> opened tr = map (\<lambda>i. ?path (n + int i)) [0..<0]
         \<and> (st = None \<longrightarrow> 0 = length (batch # rest))"
        using stop(1) by simp
      then show ?thesis by blast
    next
      case 3
      then have "(1::nat) \<le> 1 \<and> 1 \<le> length (batch # rest)
         \<and> assigned_names tr = map (\<lambda>i. ?name (n + int i)) [0..<1]
         \<and> opened tr = map (\<lambda>i. ?path (n + int i)) [0..<1]
         \<and> (st = None \<longrightarrow> 1 = length (batch # rest))"
        using stop(1) by simp
      then show ?thesis by blast
    qed
  next
    case continue
    from Cons.IH [OF continue(2)] obtain m j where
      mj: "j \<le> m" "m \<le> length rest"
      and a2: "assigned_names tr2 = map (\<lambda>i. ?name (n + 1 + int i)) [0..<m]"
      and o2: "opened tr2 = map (\<lambda>i. ?path (n + 1 + int i)) [0..<j]"
      and s2: "st = None \<longrightarrow> j = length rest"
      by blast
    have "assigned_names tr = ?name n # map (\<lambda>i. ?name (n + 1 + int i)) [0..<m]"
      by (simp only: continue(1) assigned_names_append batch_success_names a2 append_Cons append_Nil)
    then have a: "assigned_names tr = map (\<lambda>i. ?name (n + int i)) [0..<Suc m]"
      by (simp only: names_shift [of ?name])
    have "opened tr = ?path n # map (\<lambda>i. ?path (n + 1 + int i)) [0..<j]"
      by (simp only: continue(1) opened_append batch_success_names o2 append_Cons append_Nil)
    then have o: "opened tr = map (\<lambda>i. ?path (n + int i)) [0..<Suc j]"
      by (simp only: names_shift [of ?path])
    have "Suc j \<le> Suc m \<and> Suc m \<le> length (batch # rest)
         \<and> assigned_names tr = map (\<lambda>i. ?name (n + int i)) [0..<Suc m]
         \<and> opened tr = map (\<lambda>i. ?path (n + int i)) [0..<Suc j]
         \<and> (st = None \<longrightarrow> Suc j = length (batch # rest))"
      using mj a o s2 by simp
    then show ?thesis by blast
  qed
qed

lemma distinct_names:
  "distinct (map (\<lambda>i. ''pq-table-'' @ to_string (n + int i)) [0..<m])"
  "distinct (map (\<lambda>i. Join dir_fn (''pq-table-'' @ to_string (n + int i))) [0..<m])"
proof -
  have "inj_on (\<lambda>i. ''pq-table-'' @ to_string (n + int i)) (set [0..<m])"
    by (rule inj_onI) (auto dest: to_string_inj)
  then show "distinct (map (\<lambda>i. ''pq-table-'' @ to_string (n + int i)) [0..<m])"
    by (simp add: distinct_map)
  have "inj_on (\<lambda>i. Join dir_fn (''pq-table-'' @ to_string (n + int i))) (set [0..<m])"
    by (rule inj_onI) (auto simp: Join_def dest: to_string_inj)
  then show "distinct (map (\<lambda>i. Join dir_fn (''pq-table-'' @ to_string (n + int i))) [0..<m])"
    by (simp add: distinct_map)
qed

lemma upt_0_3: "[0..<3] = [0, 1, 2]"
  by code_simp

text \<open>
  C6. The name of an output file is the fixed prefix \<open>pq-table-\<close> followed by the
  decimal value of the counter, and taking a name advances the counter by one. In the
  loop over any batches, started with the counter at \<open>n\<close>, the names assigned are those
  of \<open>n\<close>, \<open>n + 1\<close>, ... in the order of the batches, one per batch reached; the files
  opened are these names inside the output directory; no name and no path occurs twice;
  and a loop that succeeds has advanced the counter once per batch. \<open>DoMain\<close> starts the
  counter at 1: a run that succeeds assigns \<open>pq-table-1\<close>. The counter is a C++ \<open>int\<close>,
  so the statement is for counters that stay below \<open>2^31\<close>.
\<close>

theorem sample_file_names:
  "sample_name n = (''pq-table-'' @ to_string n, n + 1)
   \<and> (\<forall>tr0 r tr1. 1 \<le> n \<longrightarrow> n + int (length batches) < 2 ^ 31 \<longrightarrow>
         write_batches env dir_fn props batches n tr0 = (r, tr1) \<longrightarrow>
       (\<exists>new m j. tr1 = tr0 @ new \<and> j \<le> m \<and> m \<le> length batches
          \<and> assigned_names new = map (\<lambda>i. ''pq-table-'' @ to_string (n + int i)) [0..<m]
          \<and> opened new = map (\<lambda>i. Join dir_fn (''pq-table-'' @ to_string (n + int i))) [0..<j]
          \<and> distinct (assigned_names new) \<and> distinct (opened new)
          \<and> (\<forall>v. r = Inr v \<longrightarrow>
                j = length batches \<and> m = length batches \<and> v = n + int (length batches))))
   \<and> (\<forall>tr. DoMain ops env out_dir [] = (Inr (), tr) \<longrightarrow>
         assigned_names tr = [''pq-table-1''] \<and> opened tr = [Join out_dir ''pq-table-1''])"
proof (intro conjI allI impI)
  show "sample_name n = (''pq-table-'' @ to_string n, n + 1)" by (simp add: sample_name_def)
next
  fix tr0 r tr1
  assume run: "write_batches env dir_fn props batches n tr0 = (r, tr1)"
  from performsD(1) [OF write_batches_performs run] obtain new where
    new: "tr1 = tr0 @ new" and sr: "stopped_run (loop_steps dir_fn props batches n) new (status_of r)"
    by blast
  from loop_names [OF sr] obtain m j where
    mj: "j \<le> m" "m \<le> length batches"
    and a: "assigned_names new = map (\<lambda>i. ''pq-table-'' @ to_string (n + int i)) [0..<m]"
    and o: "opened new = map (\<lambda>i. Join dir_fn (''pq-table-'' @ to_string (n + int i))) [0..<j]"
    and s: "status_of r = None \<longrightarrow> j = length batches"
    by (elim exE conjE) (rule that, assumption+)
  have da: "distinct (assigned_names new)" by (subst a) (rule distinct_names(1))
  have dop: "distinct (opened new)" by (subst o) (rule distinct_names(2))
  have fin: "\<forall>v. r = Inr v \<longrightarrow>
                j = length batches \<and> m = length batches \<and> v = n + int (length batches)"
  proof (intro allI impI)
    fix v
    assume that: "r = Inr v"
    have "status_of r = None" using that by (simp add: status_of_def)
    with s have j: "j = length batches" by simp
    from j mj have m: "m = length batches" by simp
    have v: "v = n + int (length batches)"
      using performsD(2) [OF write_batches_performs run that] by simp
    from j m v show "j = length batches \<and> m = length batches \<and> v = n + int (length batches)"
      by simp
  qed
  from new mj a o da dop fin
  show "\<exists>new m j. tr1 = tr0 @ new \<and> j \<le> m \<and> m \<le> length batches
          \<and> assigned_names new = map (\<lambda>i. ''pq-table-'' @ to_string (n + int i)) [0..<m]
          \<and> opened new = map (\<lambda>i. Join dir_fn (''pq-table-'' @ to_string (n + int i))) [0..<j]
          \<and> distinct (assigned_names new) \<and> distinct (opened new)
          \<and> (\<forall>v. r = Inr v \<longrightarrow>
                j = length batches \<and> m = length batches \<and> v = n + int (length batches))"
    by (intro exI [of _ new] exI [of _ m] exI [of _ j] conjI)
next
  fix tr
  assume "DoMain ops env out_dir [] = (Inr (), tr)"
  from DoMain_success_trace [OF this] obtain batch where
    tr: "tr = map succeeded (main_steps out_dir [batch])"
    by blast
  show "assigned_names tr = [''pq-table-1'']"
    by (simp add: tr main_steps_def batch_steps_def succeeded_def assigned_names_def to_string_1)
  show "opened tr = [Join out_dir ''pq-table-1'']"
    by (simp add: tr main_steps_def batch_steps_def succeeded_def opened_def to_string_1)
qed

lemma three_batches_run:
  "fst (write_batches env_ok ''out'' GetWriterProperties [small_batch, small_batch, small_batch] 1 [])
     = Inr 4"
  by (simp add: bind_def write_batch_env_ok [OF ValidateFull_small_batch] return_def)

theorem sample_file_names_witness:
  "\<exists>tr. write_batches env_ok ''out'' GetWriterProperties [small_batch, small_batch, small_batch] 1 []
          = (Inr 4, tr)
     \<and> assigned_names tr = [''pq-table-1'', ''pq-table-2'', ''pq-table-3'']
     \<and> opened tr = [''out/pq-table-1'', ''out/pq-table-2'', ''out/pq-table-3'']
     \<and> distinct (opened tr)"
proof -
  define tr where "tr = snd (write_batches env_ok ''out'' GetWriterProperties
      [small_batch, small_batch, small_batch] 1 [])"
  have run: "write_batches env_ok ''out'' GetWriterProperties
      [small_batch, small_batch, small_batch] 1 [] = (Inr 4, tr)"
    unfolding tr_def using three_batches_run by (simp add: prod_eq_iff)
  note sf = sample_file_names [of 1 "[small_batch, small_batch, small_batch]" env_ok "''out''"
      GetWriterProperties lcg_ops "''out''"]
  have n1: "(1::int) \<le> 1" by simp
  have n2: "1 + int (length [small_batch, small_batch, small_batch]) < 2 ^ 31" by simp
  from sf [THEN conjunct2, THEN conjunct1, rule_format, OF n1 n2 run]
  obtain new m j where new: "tr = [] @ new"
    and a: "assigned_names new = map (\<lambda>i. ''pq-table-'' @ to_string (1 + int i)) [0..<m]"
    and o: "opened new = map (\<lambda>i. Join ''out'' (''pq-table-'' @ to_string (1 + int i))) [0..<j]"
    and d: "distinct (opened new)"
    and fin: "\<forall>v. (Inr 4 :: error + int) = Inr v \<longrightarrow>
        j = length [small_batch, small_batch, small_batch]
        \<and> m = length [small_batch, small_batch, small_batch]
        \<and> v = 1 + int (length [small_batch, small_batch, small_batch])"
    by (elim exE conjE) (rule that, assumption+)
  have eq: "new = tr" using new by (simp only: append_Nil)
  from fin have mj: "m = 3" "j = 3" by simp_all
  have an: "assigned_names tr = [''pq-table-1'', ''pq-table-2'', ''pq-table-3'']"
    using a unfolding eq mj upt_0_3 by (simp add: to_string_1 to_string_2 to_string_3)
  have op: "opened tr = [''out/pq-table-1'', ''out/pq-table-2'', ''out/pq-table-3'']"
    using o unfolding eq mj upt_0_3 by (simp add: to_string_1 to_string_2 to_string_3 Join_def)
  have dt: "distinct (opened tr)" using d unfolding eq .
  from run an op dt show ?thesis by (intro exI [of _ tr] conjI)
qed

end
